theory Spec2Isabelle
  imports Complex_Main "HOL-Library.Multiset"
begin

section \<open>The job store: table \<open>print_jobs\<close> of init.sql\<close>

text \<open>
  The backend (backend/server.js) is three request handlers over one PostgreSQL table.
  A handler is modelled by the statement it sends and by what the database does with it;
  the part of SQL that the statements use (INSERT with column constraints, WHERE with
  ILIKE, ORDER BY, LIMIT/OFFSET, COUNT, SUM, GROUP BY) is written out below.

  Scope of the model. Request fields carry values of the type the column or clause
  expects: texts are \<open>string\<close>, numbers are integers (a page, a limit, a page count),
  instants are integers on one time line (a timestamp after the database has read it).
  A field that is missing is \<open>None\<close>. Texts that the database cannot read as a number
  or as a timestamp are not represented. The numbers of a request (\<open>page\<close>, \<open>limit\<close>)
  and the counts of a table are taken below \<open>2^53\<close>, where a JavaScript number is exact;
  the offset that the handler computes from them may exceed that, and the 64-bit range of
  the database, and is modelled as far as it decides the answer (\<open>offset_sent\<close>).
  Letter case is folded for the ASCII letters.
\<close>

type_synonym timestamp = int

text \<open>
  One row of \<open>print_jobs\<close>. The columns declared \<open>NOT NULL\<close> hold a value, the others
  hold \<open>None\<close> for SQL NULL. \<open>print_time\<close> is nullable in the schema, but the only
  statement that writes the table always supplies it (\<open>printTime || new Date()\<close>), so
  the row type keeps a plain timestamp.
\<close>

record print_job =
  id_col :: int
  job_id :: "string option"
  user_name :: string
  machine_name :: string
  printer_name :: string
  document_name :: "string option"
  page_count :: "int option"
  print_time :: timestamp
  status :: "string option"
  file_size :: "int option"
  created_at :: timestamp

text \<open>The table in insertion order, and the last value of the sequence behind \<open>id SERIAL\<close>.\<close>

record job_store =
  print_jobs :: "print_job list"
  id_seq :: int

definition empty_store :: job_store where
  "empty_store = \<lparr>print_jobs = [], id_seq = 0\<rparr>"

text \<open>
  What a handler answers when it fails. Every handler has one failure path, its
  \<open>catch\<close> block: HTTP 500 with \<open>success: false\<close> and a fixed message, reached when a
  statement is rejected by the database. That is \<open>StorageError\<close>. No handler has a path
  that answers with a validation failure; the constructor is there so that this can be said.
\<close>

datatype error = ValidationError | StorageError

datatype sql_error =
  NotNullViolation | StringDataRightTruncation | NumericValueOutOfRange
  | SequenceGeneratorLimitExceeded
  | InvalidRowCountInLimit | InvalidRowCountInOffset

subsection \<open>INSERT INTO print_jobs\<close>

definition int4_ok :: "int \<Rightarrow> bool" where
  "int4_ok n = (- (2 ^ 31) \<le> n \<and> n < 2 ^ 31)"

definition int8_ok :: "int \<Rightarrow> bool" where
  "int8_ok n = (- (2 ^ 63) \<le> n \<and> n < 2 ^ 63)"

definition opt_ok :: "('a \<Rightarrow> bool) \<Rightarrow> 'a option \<Rightarrow> bool" where
  "opt_ok P v = (case v of None \<Rightarrow> True | Some x \<Rightarrow> P x)"

text \<open>
  \<open>VARCHAR(n)\<close>: a text of more than \<open>n\<close> characters is rejected, unless the excess
  is all spaces, which are cut off. The characters are those of the model's \<open>string\<close>.
\<close>

definition varchar_ok :: "nat \<Rightarrow> string \<Rightarrow> bool" where
  "varchar_ok n s = (\<forall>c \<in> set (drop n s). c = CHR '' '')"

definition varchar :: "nat \<Rightarrow> string \<Rightarrow> string" where
  "varchar n s = take n s"

text \<open>
  The statement of the POST handler, with its nine parameters \<open>$1 .. $9\<close>. A parameter
  that is \<open>None\<close> is an explicit NULL in the VALUES list, so the column's DEFAULT is not
  used for it. The numbers are read and the texts are fitted to their columns before the
  statement runs; a refusal there leaves the sequence as it was. Then the row is formed:
  \<open>id SERIAL\<close> draws the next value of a sequence of 32-bit integers, which fails past
  2147483647; a value drawn is not given back when the row is rejected. Then NOT NULL
  is checked.
\<close>

definition serial_max :: int where
  "serial_max = 2147483647"

definition insert_print_job ::
  "timestamp \<Rightarrow> job_store \<Rightarrow> string option \<Rightarrow> string option \<Rightarrow> string option \<Rightarrow> string option
     \<Rightarrow> string option \<Rightarrow> int option \<Rightarrow> timestamp \<Rightarrow> string option \<Rightarrow> int option
     \<Rightarrow> job_store \<times> (sql_error + print_job)" where
  "insert_print_job db_now st p1 p2 p3 p4 p5 p6 p7 p8 p9 =
     (if \<not> (opt_ok int4_ok p6 \<and> opt_ok int8_ok p9) then (st, Inl NumericValueOutOfRange)
      else if \<not> (opt_ok (varchar_ok 100) p1 \<and> opt_ok (varchar_ok 100) p2
                  \<and> opt_ok (varchar_ok 100) p3 \<and> opt_ok (varchar_ok 200) p4
                  \<and> opt_ok (varchar_ok 500) p5 \<and> opt_ok (varchar_ok 50) p8)
      then (st, Inl StringDataRightTruncation)
      else if serial_max \<le> id_seq st then (st, Inl SequenceGeneratorLimitExceeded)
      else
        let new_id = id_seq st + 1; st' = st\<lparr>id_seq := new_id\<rparr> in
          (case (p2, p3, p4) of
             (Some u, Some m, Some p) \<Rightarrow>
               let row = \<lparr>id_col = new_id,
                          job_id = map_option (varchar 100) p1,
                          user_name = varchar 100 u,
                          machine_name = varchar 100 m,
                          printer_name = varchar 200 p,
                          document_name = map_option (varchar 500) p5,
                          page_count = p6,
                          print_time = p7,
                          status = map_option (varchar 50) p8,
                          file_size = p9,
                          created_at = db_now\<rparr>
               in (st'\<lparr>print_jobs := print_jobs st' @ [row]\<rparr>, Inr row)
           | _ \<Rightarrow> (st', Inl NotNullViolation)))"

subsection \<open>POST /api/print-jobs\<close>

text \<open>The request body. \<open>status_req\<close> is the field \<open>status\<close> of the body.\<close>

record job_report =
  jobId :: "string option"
  userName :: "string option"
  machineName :: "string option"
  printerName :: "string option"
  documentName :: "string option"
  pageCount :: "int option"
  printTime :: "timestamp option"
  status_req :: "string option"
  fileSize :: "int option"

text \<open>
  \<open>now\<close> is the handler's \<open>new Date()\<close>, \<open>db_now\<close> the database's CURRENT_TIMESTAMP.
  The answer is HTTP 201 with the row that RETURNING gives (\<open>Inr\<close>), or the \<open>catch\<close>
  block's HTTP 500 \<open>Failed to save print job\<close> (\<open>Inl StorageError\<close>).
\<close>

definition post_print_jobs ::
  "timestamp \<Rightarrow> timestamp \<Rightarrow> job_store \<Rightarrow> job_report \<Rightarrow> job_store \<times> (error + print_job)" where
  "post_print_jobs now db_now st req =
     (case insert_print_job db_now st (jobId req) (userName req) (machineName req)
             (printerName req) (documentName req) (pageCount req)
             (case printTime req of None \<Rightarrow> now | Some t \<Rightarrow> t)
             (status_req req) (fileSize req) of
        (st', Inl e) \<Rightarrow> (st', Inl StorageError)
      | (st', Inr row) \<Rightarrow> (st', Inr row))"

text \<open>A report that carries the three names and nothing else, used in the examples.\<close>

definition report :: "string \<Rightarrow> string \<Rightarrow> string \<Rightarrow> job_report" where
  "report u m p = \<lparr>jobId = None, userName = Some u, machineName = Some m,
     printerName = Some p, documentName = None, pageCount = None, printTime = None,
     status_req = None, fileSize = None\<rparr>"

section \<open>The SQL used by the two GET handlers\<close>

subsection \<open>LIKE and ILIKE\<close>

text \<open>
  \<open>like s p\<close> is \<open>s LIKE p\<close>: in the pattern \<open>%\<close> stands for any run of characters,
  \<open>_\<close> for any one character, and a backslash makes the character after it stand for
  itself. A pattern that ends in a lone backslash is an error in PostgreSQL; the patterns
  built by the handlers all end in \<open>%\<close>, and the model gives \<open>False\<close> there.
\<close>

fun like :: "string \<Rightarrow> string \<Rightarrow> bool" where
  "like s [] = (s = [])"
| "like [] (c # p) = (c = CHR ''%'' \<and> like [] p)"
| "like (x # s) (c # p) =
     (if c = CHR ''%'' then like (x # s) p \<or> like s (c # p)
      else if c = CHR ''_'' then like s p
      else if c = CHR 0x5C then (case p of [] \<Rightarrow> False | d # p' \<Rightarrow> x = d \<and> like s p')
      else x = c \<and> like s p)"

definition lower_char :: "char \<Rightarrow> char" where
  "lower_char c =
     (case map_of (zip ''ABCDEFGHIJKLMNOPQRSTUVWXYZ'' ''abcdefghijklmnopqrstuvwxyz'') c of
        Some d \<Rightarrow> d | None \<Rightarrow> c)"

definition lower :: "string \<Rightarrow> string" where
  "lower s = map lower_char s"

text \<open>\<open>s ILIKE p\<close>: LIKE after folding the case of both sides.\<close>

definition ilike :: "string \<Rightarrow> string \<Rightarrow> bool" where
  "ilike s p = like (lower s) (lower p)"

subsection \<open>WHERE\<close>

text \<open>
  The handler appends one \<open>AND ...\<close> fragment and one parameter per filter that is
  given. A fragment with its parameter is a \<open>clause\<close>; the WHERE condition
  \<open>1=1 AND c1 AND ... AND cn\<close> holds for a row when every clause does. In the search
  clause a NULL document name makes the first ILIKE unknown, so the row is selected
  exactly when the second ILIKE is true.
\<close>

datatype clause =
  UserIlike string
  | PrinterIlike string
  | PrintTimeGe timestamp
  | PrintTimeLe timestamp
  | DocOrUserIlike string

fun clause_holds :: "clause \<Rightarrow> print_job \<Rightarrow> bool" where
  "clause_holds (UserIlike p) r = ilike (user_name r) p"
| "clause_holds (PrinterIlike p) r = ilike (printer_name r) p"
| "clause_holds (PrintTimeGe t) r = (t \<le> print_time r)"
| "clause_holds (PrintTimeLe t) r = (print_time r \<le> t)"
| "clause_holds (DocOrUserIlike p) r =
     ((case document_name r of None \<Rightarrow> False | Some d \<Rightarrow> ilike d p) \<or> ilike (user_name r) p)"

definition where_holds :: "clause list \<Rightarrow> print_job \<Rightarrow> bool" where
  "where_holds cs r = list_all (\<lambda>c. clause_holds c r) cs"

subsection \<open>ORDER BY, LIMIT and OFFSET\<close>

text \<open>
  ORDER BY fixes the order of the rows only as far as the sort key decides it: the
  database may return the rows in any order \<open>out\<close> that is a rearrangement of them and
  in which each row may stand \<open>before\<close> the rows after it. Which one it returns is not
  determined by the statement and may differ from one execution to the next.
\<close>

definition order_by :: "('a \<Rightarrow> 'a \<Rightarrow> bool) \<Rightarrow> 'a list \<Rightarrow> 'a list \<Rightarrow> bool" where
  "order_by before rows out = (mset out = mset rows \<and> sorted_wrt before out)"

text \<open>\<open>ORDER BY print_time DESC\<close>.\<close>

definition print_time_desc :: "print_job \<Rightarrow> print_job \<Rightarrow> bool" where
  "print_time_desc a b = (print_time b \<le> print_time a)"

text \<open>
  \<open>LIMIT lmt OFFSET off\<close>: both parameters are read as 64-bit integers, and a value
  outside that range is rejected; so is a negative row count.
\<close>

definition limit_offset :: "int \<Rightarrow> int \<Rightarrow> 'a list \<Rightarrow> sql_error + 'a list" where
  "limit_offset lmt off rows =
     (if \<not> (int8_ok lmt \<and> int8_ok off) then Inl NumericValueOutOfRange
      else if off < 0 then Inl InvalidRowCountInOffset
      else if lmt < 0 then Inl InvalidRowCountInLimit
      else Inr (take (nat lmt) (drop (nat off) rows)))"

subsection \<open>Aggregates\<close>

definition sql_count :: "'a list \<Rightarrow> int" where
  "sql_count rows = int (length rows)"

text \<open>
  \<open>SUM\<close> adds the values that are not NULL (a NULL adds nothing, \<open>pages_of\<close>), and is
  NULL when there is none.
\<close>

definition pages_of :: "int option \<Rightarrow> int" where
  "pages_of v = (case v of None \<Rightarrow> 0 | Some n \<Rightarrow> n)"

definition sql_sum :: "int option list \<Rightarrow> int option" where
  "sql_sum vs = (if list_all (\<lambda>v. v = None) vs then None
                 else Some (sum_list (map pages_of vs)))"

text \<open>
  One output row of the two grouped statements: the grouping column (\<open>user_name\<close> or
  \<open>printer_name\<close>), \<open>COUNT(*) as job_count\<close> and \<open>SUM(page_count) as page_count\<close>.
\<close>

record group_row =
  group_name :: string
  job_count :: int
  page_count_sum :: "int option"

definition group_by :: "(print_job \<Rightarrow> string) \<Rightarrow> print_job list \<Rightarrow> group_row list" where
  "group_by col rows =
     map (\<lambda>k. \<lparr>group_name = k,
                job_count = sql_count (filter (\<lambda>r. col r = k) rows),
                page_count_sum = sql_sum (map page_count (filter (\<lambda>r. col r = k) rows))\<rparr>)
         (remdups (map col rows))"

text \<open>
  \<open>ORDER BY page_count DESC\<close> in the grouped statement sorts by the output column, the
  sum; descending order puts NULL first. \<open>ORDER BY job_count DESC\<close> sorts by the count.
\<close>

definition page_count_desc :: "group_row \<Rightarrow> group_row \<Rightarrow> bool" where
  "page_count_desc a b =
     (case page_count_sum a of None \<Rightarrow> True
      | Some x \<Rightarrow> (case page_count_sum b of None \<Rightarrow> False | Some y \<Rightarrow> y \<le> x))"

definition job_count_desc :: "group_row \<Rightarrow> group_row \<Rightarrow> bool" where
  "job_count_desc a b = (job_count b \<le> job_count a)"

section \<open>GET /api/print-jobs\<close>

text \<open>\<open>req.query\<close>, read by both GET handlers.\<close>

record query_params =
  page :: "int option"
  limit :: "int option"
  user :: "string option"
  printer :: "string option"
  startDate :: "timestamp option"
  endDate :: "timestamp option"
  search :: "string option"

definition no_params :: query_params where
  "no_params = \<lparr>page = None, limit = None, user = None, printer = None,
     startDate = None, endDate = None, search = None\<rparr>"

text \<open>\<open>if (user) { ... params.push(`%${user}%`) }\<close>: an empty text is falsy.\<close>

definition text_clause :: "(string \<Rightarrow> clause) \<Rightarrow> string option \<Rightarrow> clause list" where
  "text_clause mk v =
     (case v of None \<Rightarrow> [] | Some t \<Rightarrow> if t = [] then [] else [mk (''%'' @ t @ ''%'')])"

definition date_clause :: "(timestamp \<Rightarrow> clause) \<Rightarrow> timestamp option \<Rightarrow> clause list" where
  "date_clause mk v = (case v of None \<Rightarrow> [] | Some t \<Rightarrow> [mk t])"

text \<open>The clauses of the SELECT (lines 126 to 154) and of the COUNT (lines 175 to 203).\<close>

definition select_clauses :: "query_params \<Rightarrow> clause list" where
  "select_clauses q =
     text_clause UserIlike (user q) @ text_clause PrinterIlike (printer q)
     @ date_clause PrintTimeGe (startDate q) @ date_clause PrintTimeLe (endDate q)
     @ text_clause DocOrUserIlike (search q)"

definition count_clauses :: "query_params \<Rightarrow> clause list" where
  "count_clauses q =
     text_clause UserIlike (user q) @ text_clause PrinterIlike (printer q)
     @ date_clause PrintTimeGe (startDate q) @ date_clause PrintTimeLe (endDate q)
     @ text_clause DocOrUserIlike (search q)"

text \<open>The statements' rows: \<open>SELECT * ... WHERE ...\<close> before it is ordered, and the COUNT.\<close>

definition select_rows :: "job_store \<Rightarrow> query_params \<Rightarrow> print_job list" where
  "select_rows st q = filter (where_holds (select_clauses q)) (print_jobs st)"

definition count_rows :: "job_store \<Rightarrow> query_params \<Rightarrow> int" where
  "count_rows st q = sql_count (filter (where_holds (count_clauses q)) (print_jobs st))"

text \<open>\<open>page = 1\<close> and \<open>limit = 50\<close> in the destructuring of \<open>req.query\<close>.\<close>

definition page_of :: "query_params \<Rightarrow> int" where
  "page_of q = (case page q of None \<Rightarrow> 1 | Some p \<Rightarrow> p)"

definition limit_of :: "query_params \<Rightarrow> int" where
  "limit_of q = (case limit q of None \<Rightarrow> 50 | Some l \<Rightarrow> l)"

text \<open>
  A JavaScript number as far as \<open>Math.ceil(totalCount / limit)\<close> can produce one:
  an integer, or what a division by zero gives. JSON writes the last three as \<open>null\<close>.
\<close>

datatype js_number = Num int | PosInfinity | NegInfinity | NaN

definition ceil_div :: "int \<Rightarrow> int \<Rightarrow> js_number" where
  "ceil_div a b =
     (if b = 0 then (if a = 0 then NaN else if 0 < a then PosInfinity else NegInfinity)
      else Num (- ((- a) div b)))"

record pagination =
  p_page :: int
  p_limit :: int
  p_total :: int
  p_pages :: js_number

record jobs_response =
  data :: "print_job list"
  pagination :: pagination

text \<open>
  \<open>const offset = (page - 1) * limit\<close> is computed in double precision and sent to the
  database as the text that JavaScript prints for it. Up to \<open>2^53\<close> that is the product
  itself. Beyond, the product is rounded and printed with at most 17 digits: the model
  does not compute the digits and keeps what decides the answer, that the number sent
  has the sign of the product, is not below \<open>2^53\<close> in size, and is not below \<open>2^63\<close>
  in size when the product is not. (From \<open>10^21\<close> on the text is not an integer and the
  database rejects it, as it rejects every number from \<open>2^63\<close> on.) \<open>limit\<close> is sent
  as the request has it.
\<close>

definition js_exact :: "int \<Rightarrow> bool" where
  "js_exact x = (abs x < 2 ^ 53)"

definition offset_sent :: "int \<Rightarrow> int \<Rightarrow> bool" where
  "offset_sent x off =
     (if js_exact x then off = x
      else (x < 0 \<longleftrightarrow> off < 0) \<and> 2 ^ 53 \<le> abs off \<and> (2 ^ 63 \<le> abs x \<longrightarrow> 2 ^ 63 \<le> abs off))"

text \<open>
  The handler after the database has ordered the selected rows as \<open>ordered\<close> and read
  the offset \<open>off\<close>: LIMIT and OFFSET are applied, then the COUNT statement runs, then
  the answer is built. A rejected statement ends in the \<open>catch\<close> block (HTTP 500
  \<open>Failed to fetch print jobs\<close>).
\<close>

definition jobs_answer ::
  "job_store \<Rightarrow> query_params \<Rightarrow> int \<Rightarrow> print_job list \<Rightarrow> error + jobs_response" where
  "jobs_answer st q off ordered =
     (case limit_offset (limit_of q) off ordered of
        Inl e \<Rightarrow> Inl StorageError
      | Inr rows \<Rightarrow>
          let totalCount = count_rows st q
          in Inr \<lparr>data = rows,
                  pagination = \<lparr>p_page = page_of q, p_limit = limit_of q,
                                 p_total = totalCount,
                                 p_pages = ceil_div totalCount (limit_of q)\<rparr>\<rparr>)"

text \<open>
  The handler: any answer that some admissible ordering of the selected rows gives, with
  the offset as it was sent.
\<close>

inductive get_print_jobs :: "job_store \<Rightarrow> query_params \<Rightarrow> error + jobs_response \<Rightarrow> bool" where
  "order_by print_time_desc (select_rows st q) ordered
   \<Longrightarrow> offset_sent ((page_of q - 1) * limit_of q) off
   \<Longrightarrow> get_print_jobs st q (jobs_answer st q off ordered)"

section \<open>GET /api/stats\<close>

text \<open>The date filter is used only when both bounds are given.\<close>

definition dateFilter :: "query_params \<Rightarrow> clause list" where
  "dateFilter q =
     (case (startDate q, endDate q) of
        (Some s, Some e) \<Rightarrow> [PrintTimeGe s, PrintTimeLe e]
      | _ \<Rightarrow> [])"

definition stats_rows :: "job_store \<Rightarrow> query_params \<Rightarrow> print_job list" where
  "stats_rows st q = filter (where_holds (dateFilter q)) (print_jobs st)"

record stats =
  totalJobs :: int
  totalPages :: int
  topUsers :: "group_row list"
  topPrinters :: "group_row list"

text \<open>
  The answer, given the orders \<open>us\<close> and \<open>ps\<close> in which the database returns the two
  grouped results. \<open>parseInt(total || 0)\<close> turns a NULL sum into 0.
\<close>

definition stats_answer :: "job_store \<Rightarrow> query_params \<Rightarrow> group_row list \<Rightarrow> group_row list \<Rightarrow> stats" where
  "stats_answer st q us ps =
     \<lparr>totalJobs = sql_count (stats_rows st q),
      totalPages = (case sql_sum (map page_count (stats_rows st q)) of None \<Rightarrow> 0 | Some n \<Rightarrow> n),
      topUsers = take 10 us,
      topPrinters = take 10 ps\<rparr>"

inductive get_stats :: "job_store \<Rightarrow> query_params \<Rightarrow> stats \<Rightarrow> bool" where
  "order_by page_count_desc (group_by user_name (stats_rows st q)) us
   \<Longrightarrow> order_by job_count_desc (group_by printer_name (stats_rows st q)) ps
   \<Longrightarrow> get_stats st q (stats_answer st q us ps)"

section \<open>The specification's words\<close>

text \<open>Substring: \<open>t\<close> occurs in \<open>s\<close>; and the same with the case of both folded.\<close>

primrec is_substring :: "'a list \<Rightarrow> 'a list \<Rightarrow> bool" where
  "is_substring t [] = (t = [])"
| "is_substring t (x # s) = (take (length t) (x # s) = t \<or> is_substring t s)"

definition ci_contains :: "string \<Rightarrow> string \<Rightarrow> bool" where
  "ci_contains t s = is_substring (lower t) (lower s)"

text \<open>
  A record satisfies the filters of a query as the specification words them: each
  filter that is given must hold, a filter that is missing asks nothing.
\<close>

definition spec_matches :: "query_params \<Rightarrow> print_job \<Rightarrow> bool" where
  "spec_matches q r =
     ((case user q of None \<Rightarrow> True | Some u \<Rightarrow> ci_contains u (user_name r))
    \<and> (case printer q of None \<Rightarrow> True | Some p \<Rightarrow> ci_contains p (printer_name r))
    \<and> (case startDate q of None \<Rightarrow> True | Some s \<Rightarrow> s \<le> print_time r)
    \<and> (case endDate q of None \<Rightarrow> True | Some e \<Rightarrow> print_time r \<le> e)
    \<and> (case search q of None \<Rightarrow> True
        | Some t \<Rightarrow> (case document_name r of None \<Rightarrow> False | Some d \<Rightarrow> ci_contains t d)
                    \<or> ci_contains t (user_name r)))"

text \<open>A filter text without the characters that LIKE reads as wildcards or escapes.\<close>

definition plain :: "string \<Rightarrow> bool" where
  "plain t = (CHR ''%'' \<notin> set t \<and> CHR ''_'' \<notin> set t \<and> CHR 0x5C \<notin> set t)"

definition plain_text :: "string option \<Rightarrow> bool" where
  "plain_text v = (case v of None \<Rightarrow> True | Some t \<Rightarrow> plain t)"

text \<open>
  A record passes the date filter of the aggregation: inside the range when both bounds
  are given, always when a bound is missing.
\<close>

definition in_window :: "query_params \<Rightarrow> print_job \<Rightarrow> bool" where
  "in_window q r =
     (case startDate q of None \<Rightarrow> True
      | Some s \<Rightarrow> (case endDate q of None \<Rightarrow> True
                   | Some e \<Rightarrow> s \<le> print_time r \<and> print_time r \<le> e))"

text \<open>
  A top-list entry for a name, over the records \<open>M\<close>: the name occurs in \<open>M\<close>, and
  the entry carries the number of the name's records and the sum of their page counts
  (no sum when none of them has a page count).
\<close>

definition entry_for :: "(print_job \<Rightarrow> string) \<Rightarrow> print_job list \<Rightarrow> group_row \<Rightarrow> bool" where
  "entry_for col M g =
     (let G = filter (\<lambda>x. col x = group_name g) M
      in G \<noteq> [] \<and> job_count g = int (length G)
         \<and> page_count_sum g =
             (if list_all (\<lambda>x. page_count x = None) G then None
              else Some (\<Sum>x\<leftarrow>G. pages_of (page_count x))))"

text \<open>
  Ranking: \<open>a\<close> may stand before \<open>b\<close> by summed page count (said of entries that have a
  sum), or by job count.
\<close>

definition by_pages :: "group_row \<Rightarrow> group_row \<Rightarrow> bool" where
  "by_pages a b =
     (case page_count_sum a of None \<Rightarrow> True
      | Some x \<Rightarrow> (case page_count_sum b of None \<Rightarrow> True | Some y \<Rightarrow> y \<le> x))"

definition by_jobs :: "group_row \<Rightarrow> group_row \<Rightarrow> bool" where
  "by_jobs a b = (job_count b \<le> job_count a)"

text \<open>
  A stored record carries a report: every column holds what the report says, fitted to
  the column, the print time being the report's or else the handler's clock.
\<close>

definition carries :: "print_job \<Rightarrow> job_report \<Rightarrow> timestamp \<Rightarrow> timestamp \<Rightarrow> bool" where
  "carries row r now db_now =
     (job_id row = map_option (varchar 100) (jobId r)
      \<and> Some (user_name row) = map_option (varchar 100) (userName r)
      \<and> Some (machine_name row) = map_option (varchar 100) (machineName r)
      \<and> Some (printer_name row) = map_option (varchar 200) (printerName r)
      \<and> document_name row = map_option (varchar 500) (documentName r)
      \<and> page_count row = pageCount r
      \<and> print_time row = (case printTime r of None \<Rightarrow> now | Some t \<Rightarrow> t)
      \<and> status row = map_option (varchar 50) (status_req r)
      \<and> file_size row = fileSize r
      \<and> created_at row = db_now)"

text \<open>A stored row for the examples: id, user, printer, print time, page count.\<close>

definition job :: "int \<Rightarrow> string \<Rightarrow> string \<Rightarrow> timestamp \<Rightarrow> int option \<Rightarrow> print_job" where
  "job i u p t n = \<lparr>id_col = i, job_id = None, user_name = u, machine_name = ''pc1'',
     printer_name = p, document_name = None, page_count = n, print_time = t,
     status = Some ''completed'', file_size = Some 0, created_at = t\<rparr>"

text \<open>
  The scenario of the specification: A (alice, P1, 5 pages, time 100) and
  B (bob, P1, 3 pages, time 200).
\<close>

definition two_jobs :: job_store where
  "two_jobs = \<lparr>print_jobs = [job 1 ''alice'' ''P1'' 100 (Some 5), job 2 ''bob'' ''P1'' 200 (Some 3)],
     id_seq = 2\<rparr>"

text \<open>Two records with the same print time and the same page count.\<close>

definition tied_jobs :: job_store where
  "tied_jobs = \<lparr>print_jobs = [job 1 ''alice'' ''P1'' 100 (Some 5), job 2 ''bob'' ''P1'' 100 (Some 5)],
     id_seq = 2\<rparr>"

text \<open>The two pages of \<open>two_jobs\<close> at one record a page.\<close>

definition two_pages :: "int \<Rightarrow> jobs_response" where
  "two_pages p =
     \<lparr>data = (if p = 1 then [job 2 ''bob'' ''P1'' 200 (Some 3)] else [job 1 ''alice'' ''P1'' 100 (Some 5)]),
      pagination = \<lparr>p_page = p, p_limit = 1, p_total = 2, p_pages = Num 2\<rparr>\<rparr>"

section \<open>Unfolding the examples\<close>

lemmas example_defs =
  two_jobs_def tied_jobs_def empty_store_def no_params_def job_def
  select_rows_def count_rows_def select_clauses_def count_clauses_def
  text_clause_def date_clause_def where_holds_def
  order_by_def print_time_desc_def page_of_def limit_of_def
  jobs_answer_def limit_offset_def int8_ok_def sql_count_def ceil_div_def

lemmas stats_defs =
  two_jobs_def tied_jobs_def no_params_def job_def stats_rows_def dateFilter_def
  where_holds_def order_by_def group_by_def sql_count_def sql_sum_def pages_of_def
  page_count_desc_def job_count_desc_def stats_answer_def

section \<open>Ingestion\<close>

lemmas insert_defs =
  post_print_jobs_def insert_print_job_def report_def empty_store_def
  opt_ok_def int4_ok_def int8_ok_def varchar_ok_def varchar_def serial_max_def Let_def

text \<open>The answer to a report does not depend on the records stored, only on the sequence.\<close>

lemma post_print_jobs_answer:
  "id_seq st' = id_seq st \<Longrightarrow>
   snd (post_print_jobs now db_now st' req) = snd (post_print_jobs now db_now st req)"
  by (auto simp: post_print_jobs_def insert_print_job_def Let_def split: option.splits)

text \<open>What an accepted report leaves behind.\<close>

lemma post_print_jobs_accepted:
  assumes "post_print_jobs now db_now st req = (st1, Inr row)"
  shows "st1 = \<lparr>print_jobs = print_jobs st @ [row], id_seq = id_seq st + 1\<rparr>"
    and "id_col row = id_seq st + 1"
    and "id_seq st < serial_max"
    and "carries row req now db_now"
  using assms
  by (auto simp: post_print_jobs_def insert_print_job_def carries_def Let_def
      split: option.splits if_splits)

text \<open>Once the sequence is used up, every report is refused.\<close>

lemma sequence_used_up:
  "serial_max \<le> id_seq st \<Longrightarrow> snd (post_print_jobs now db_now st req) = Inl StorageError"
  by (auto simp: post_print_jobs_def insert_print_job_def Let_def split: option.splits)

text \<open>
  C1, as the code has it. A report in which \<open>userName\<close>, \<open>machineName\<close> or
  \<open>printerName\<close> is absent is refused and the table keeps its rows; the refusal is the
  handler's storage failure (the NOT NULL constraint rejects the row), not a validation
  error. Nothing in the handler looks at empty strings.
\<close>

theorem absent_name_refused:
  assumes "userName req = None \<or> machineName req = None \<or> printerName req = None"
  shows "snd (post_print_jobs now db_now st req) = Inl StorageError
         \<and> print_jobs (fst (post_print_jobs now db_now st req)) = print_jobs st"
  using assms
  by (auto simp: post_print_jobs_def insert_print_job_def Let_def split: option.splits)

theorem absent_name_refused_witness:
  "userName ((report ''alice'' ''pc1'' ''P1'')\<lparr>userName := None\<rparr>) = None
   \<and> snd (post_print_jobs 1000 1001 empty_store ((report ''alice'' ''pc1'' ''P1'')\<lparr>userName := None\<rparr>))
       = Inl StorageError
   \<and> print_jobs (fst (post_print_jobs 1000 1001 empty_store
        ((report ''alice'' ''pc1'' ''P1'')\<lparr>userName := None\<rparr>))) = print_jobs empty_store"
  using absent_name_refused [of "(report ''alice'' ''pc1'' ''P1'')\<lparr>userName := None\<rparr>"
      1000 1001 empty_store]
  by (simp add: report_def)

text \<open>
  C1 as stated fails: a report whose \<open>userName\<close> is the empty string is accepted
  (HTTP 201) and a row with an empty user name is added to the table.
\<close>

theorem empty_user_name_counterexample:
  "post_print_jobs 1000 1001 empty_store (report '''' ''pc1'' ''P1'') =
     (\<lparr>print_jobs = [\<lparr>id_col = 1, job_id = None, user_name = '''', machine_name = ''pc1'',
          printer_name = ''P1'', document_name = None, page_count = None, print_time = 1000,
          status = None, file_size = None, created_at = 1001\<rparr>], id_seq = 1\<rparr>,
      Inr \<lparr>id_col = 1, job_id = None, user_name = '''', machine_name = ''pc1'',
          printer_name = ''P1'', document_name = None, page_count = None, print_time = 1000,
          status = None, file_size = None, created_at = 1001\<rparr>)"
  by (simp add: insert_defs)

text \<open>
  C2 at a failing input. A report without \<open>pageCount\<close>, \<open>fileSize\<close> and \<open>status\<close> is
  accepted, and the stored row has NULL in \<open>page_count\<close>, \<open>file_size\<close> and \<open>status\<close>:
  the parameters are passed as explicit NULLs, so the DEFAULT 0 and DEFAULT 'completed'
  of the schema are not applied. Only \<open>print_time\<close> gets its default, the handler's clock.
\<close>

theorem absent_fields_stored_null:
  "snd (post_print_jobs 1000 1001 empty_store (report ''alice'' ''pc1'' ''P1'')) =
     Inr \<lparr>id_col = 1, job_id = None, user_name = ''alice'', machine_name = ''pc1'',
          printer_name = ''P1'', document_name = None, page_count = None, print_time = 1000,
          status = None, file_size = None, created_at = 1001\<rparr>"
  by (simp add: insert_defs)

text \<open>
  C9. Let a first report be accepted, and a second one carry the same external job id,
  with any print times and in either order of arrival. The answer to the second does
  not depend on the records that are stored, so a duplicate job id or the print times
  of earlier records never decide it. If the store without its records would accept the
  second report, the store accepts it: the two reports are stored one after the other as
  two records with different \<open>id\<close>, each carrying its report.
\<close>

theorem duplicate_job_id_accepted:
  assumes "post_print_jobs n1 d1 st r1 = (st1, Inr row1)"
    and "jobId r2 = jobId r1"
  shows "(\<forall>st'. id_seq st' = id_seq st1 \<longrightarrow>
            snd (post_print_jobs n2 d2 st' r2) = snd (post_print_jobs n2 d2 st1 r2))
       \<and> (\<forall>row2. snd (post_print_jobs n2 d2 (st1\<lparr>print_jobs := []\<rparr>) r2) = Inr row2 \<longrightarrow>
            (\<exists>st2. post_print_jobs n2 d2 st1 r2 = (st2, Inr row2)
               \<and> print_jobs st2 = print_jobs st @ [row1, row2]
               \<and> id_col row1 \<noteq> id_col row2
               \<and> job_id row1 = job_id row2
               \<and> carries row1 r1 n1 d1 \<and> carries row2 r2 n2 d2))"
proof (intro conjI allI impI)
  fix st' :: job_store
  assume "id_seq st' = id_seq st1"
  then show "snd (post_print_jobs n2 d2 st' r2) = snd (post_print_jobs n2 d2 st1 r2)"
    by (rule post_print_jobs_answer)
next
  fix row2
  assume "snd (post_print_jobs n2 d2 (st1\<lparr>print_jobs := []\<rparr>) r2) = Inr row2"
  then have "snd (post_print_jobs n2 d2 st1 r2) = Inr row2"
    using post_print_jobs_answer [of "st1\<lparr>print_jobs := []\<rparr>" st1 n2 d2 r2] by simp
  then obtain st2 where 2: "post_print_jobs n2 d2 st1 r2 = (st2, Inr row2)"
    by (cases "post_print_jobs n2 d2 st1 r2") auto
  note a1 = post_print_jobs_accepted [OF assms(1)]
  note a2 = post_print_jobs_accepted [OF 2]
  have "print_jobs st2 = print_jobs st @ [row1, row2]"
    using a1(1) a2(1) by simp
  moreover have "id_col row1 \<noteq> id_col row2"
    using a1(1,2) a2(2) by simp
  moreover have "job_id row1 = job_id row2"
    using a1(4) a2(4) assms(2) by (simp add: carries_def)
  ultimately show "\<exists>st2. post_print_jobs n2 d2 st1 r2 = (st2, Inr row2)
               \<and> print_jobs st2 = print_jobs st @ [row1, row2]
               \<and> id_col row1 \<noteq> id_col row2
               \<and> job_id row1 = job_id row2
               \<and> carries row1 r1 n1 d1 \<and> carries row2 r2 n2 d2"
    using 2 a1(4) a2(4) by blast
qed

theorem duplicate_job_id_accepted_witness:
  "jobId ((report ''bob'' ''pc2'' ''P2'')\<lparr>jobId := Some ''42'', printTime := Some 100\<rparr>)
     = jobId ((report ''alice'' ''pc1'' ''P1'')\<lparr>jobId := Some ''42'', printTime := Some 900\<rparr>)
   \<and> post_print_jobs 2000 2001 empty_store
        ((report ''alice'' ''pc1'' ''P1'')\<lparr>jobId := Some ''42'', printTime := Some 900\<rparr>)
      = (\<lparr>print_jobs = [\<lparr>id_col = 1, job_id = Some ''42'', user_name = ''alice'',
             machine_name = ''pc1'', printer_name = ''P1'', document_name = None,
             page_count = None, print_time = 900, status = None, file_size = None,
             created_at = 2001\<rparr>], id_seq = 1\<rparr>,
         Inr \<lparr>id_col = 1, job_id = Some ''42'', user_name = ''alice'',
             machine_name = ''pc1'', printer_name = ''P1'', document_name = None,
             page_count = None, print_time = 900, status = None, file_size = None,
             created_at = 2001\<rparr>)
   \<and> (\<exists>st2. post_print_jobs 3000 3001
          \<lparr>print_jobs = [\<lparr>id_col = 1, job_id = Some ''42'', user_name = ''alice'',
             machine_name = ''pc1'', printer_name = ''P1'', document_name = None,
             page_count = None, print_time = 900, status = None, file_size = None,
             created_at = 2001\<rparr>], id_seq = 1\<rparr>
          ((report ''bob'' ''pc2'' ''P2'')\<lparr>jobId := Some ''42'', printTime := Some 100\<rparr>)
        = (st2, Inr \<lparr>id_col = 2, job_id = Some ''42'', user_name = ''bob'',
             machine_name = ''pc2'', printer_name = ''P2'', document_name = None,
             page_count = None, print_time = 100, status = None, file_size = None,
             created_at = 3001\<rparr>)
        \<and> print_jobs st2 =
            [\<lparr>id_col = 1, job_id = Some ''42'', user_name = ''alice'',
               machine_name = ''pc1'', printer_name = ''P1'', document_name = None,
               page_count = None, print_time = 900, status = None, file_size = None,
               created_at = 2001\<rparr>,
             \<lparr>id_col = 2, job_id = Some ''42'', user_name = ''bob'',
               machine_name = ''pc2'', printer_name = ''P2'', document_name = None,
               page_count = None, print_time = 100, status = None, file_size = None,
               created_at = 3001\<rparr>])"
proof -
  let ?r1 = "(report ''alice'' ''pc1'' ''P1'')\<lparr>jobId := Some ''42'', printTime := Some 900\<rparr>"
  let ?r2 = "(report ''bob'' ''pc2'' ''P2'')\<lparr>jobId := Some ''42'', printTime := Some 100\<rparr>"
  let ?row1 = "\<lparr>id_col = 1, job_id = Some ''42'', user_name = ''alice'',
             machine_name = ''pc1'', printer_name = ''P1'', document_name = None,
             page_count = None, print_time = 900, status = None, file_size = None,
             created_at = 2001\<rparr>"
  let ?row2 = "\<lparr>id_col = 2, job_id = Some ''42'', user_name = ''bob'',
             machine_name = ''pc2'', printer_name = ''P2'', document_name = None,
             page_count = None, print_time = 100, status = None, file_size = None,
             created_at = 3001\<rparr>"
  let ?st1 = "\<lparr>print_jobs = [?row1], id_seq = 1\<rparr>"
  have a: "post_print_jobs 2000 2001 empty_store ?r1 = (?st1, Inr ?row1)"
    by (simp add: insert_defs)
  have b: "snd (post_print_jobs 3000 3001 (?st1\<lparr>print_jobs := []\<rparr>) ?r2) = Inr ?row2"
    by (simp add: insert_defs)
  have c: "jobId ?r2 = jobId ?r1" by simp
  from duplicate_job_id_accepted [OF a c, of 3000 3001] b
  have "\<exists>st2. post_print_jobs 3000 3001 ?st1 ?r2 = (st2, Inr ?row2)
          \<and> print_jobs st2 = print_jobs empty_store @ [?row1, ?row2]"
    by blast
  with a c show ?thesis by (simp add: empty_store_def)
qed

section \<open>Filters\<close>

lemma is_substring_iff: "is_substring t s \<longleftrightarrow> (\<exists>a b. s = a @ t @ b)"
proof (induction s)
  case Nil
  then show ?case by auto
next
  case (Cons x s)
  have "take (length t) (x # s) = t \<longleftrightarrow> (\<exists>b. x # s = t @ b)"
    by (metis append_eq_conv_conj append_take_drop_id)
  moreover have "(\<exists>a b. x # s = a @ t @ b) \<longleftrightarrow> (\<exists>b. x # s = t @ b) \<or> (\<exists>a b. s = a @ t @ b)"
  proof
    assume "\<exists>a b. x # s = a @ t @ b"
    then obtain a b where ab: "x # s = a @ t @ b" by blast
    show "(\<exists>b. x # s = t @ b) \<or> (\<exists>a b. s = a @ t @ b)"
    proof (cases a)
      case Nil
      with ab show ?thesis by auto
    next
      case (Cons y a')
      with ab have "s = a' @ t @ b" by simp
      then show ?thesis by blast
    qed
  next
    assume "(\<exists>b. x # s = t @ b) \<or> (\<exists>a b. s = a @ t @ b)"
    then show "\<exists>a b. x # s = a @ t @ b"
    proof
      assume "\<exists>b. x # s = t @ b"
      then show ?thesis by (metis append_Nil)
    next
      assume "\<exists>a b. s = a @ t @ b"
      then obtain a b where "s = a @ t @ b" by blast
      then have "x # s = (x # a) @ t @ b" by simp
      then show ?thesis by blast
    qed
  qed
  ultimately show ?case using Cons.IH by simp
qed

lemma like_any: "like s ''%''"
  by (induction s) auto

lemma like_plain_prefix:
  "plain t \<Longrightarrow> like s (t @ ''%'') \<longleftrightarrow> (\<exists>b. s = t @ b)"
proof (induction t arbitrary: s)
  case Nil
  then show ?case by (simp add: like_any)
next
  case (Cons c t)
  then have pt: "plain t" and c: "c \<noteq> CHR ''%''" "c \<noteq> CHR ''_''" "c \<noteq> CHR 0x5C"
    by (auto simp: plain_def)
  show ?case
  proof (cases s)
    case Nil
    with c show ?thesis by simp
  next
    case (Cons x s')
    with c Cons.IH [OF pt, of s'] show ?thesis by auto
  qed
qed

lemma like_percent: "like s (CHR ''%'' # p) \<longleftrightarrow> (\<exists>a b. s = a @ b \<and> like b p)"
proof (induction s)
  case Nil
  then show ?case by simp
next
  case (Cons x s)
  have "(\<exists>a b. x # s = a @ b \<and> like b p) \<longleftrightarrow> like (x # s) p \<or> (\<exists>a b. s = a @ b \<and> like b p)"
    by (auto simp: Cons_eq_append_conv)
  with Cons.IH show ?case by simp
qed

lemma like_contains:
  assumes "plain t"
  shows "like s (''%'' @ t @ ''%'') \<longleftrightarrow> is_substring t s"
proof -
  have "like s (''%'' @ t @ ''%'') \<longleftrightarrow> (\<exists>a b. s = a @ b \<and> like b (t @ ''%''))"
    using like_percent [of s "t @ ''%''"] by simp
  also have "\<dots> \<longleftrightarrow> (\<exists>a b. s = a @ t @ b)"
    using like_plain_prefix [OF assms] by auto
  finally show ?thesis by (simp add: is_substring_iff)
qed

lemma lower_char_special:
  "lower_char c = CHR ''%'' \<longleftrightarrow> c = CHR ''%''"
  "lower_char c = CHR ''_'' \<longleftrightarrow> c = CHR ''_''"
  "lower_char c = CHR 0x5C \<longleftrightarrow> c = CHR 0x5C"
  "CHR ''%'' = lower_char c \<longleftrightarrow> c = CHR ''%''"
  "CHR ''_'' = lower_char c \<longleftrightarrow> c = CHR ''_''"
  "CHR 0x5C = lower_char c \<longleftrightarrow> c = CHR 0x5C"
  by (auto simp: lower_char_def split: if_splits)

lemma plain_lower:
  assumes "plain t"
  shows "plain (lower t)"
proof -
  have "c \<noteq> CHR ''%'' \<and> c \<noteq> CHR ''_'' \<and> c \<noteq> CHR 0x5C" if "c \<in> set (lower t)" for c
  proof -
    from that obtain d where d: "d \<in> set t" "c = lower_char d"
      by (auto simp: lower_def)
    from assms d(1) have "d \<noteq> CHR ''%'' \<and> d \<noteq> CHR ''_'' \<and> d \<noteq> CHR 0x5C"
      by (auto simp: plain_def)
    with d(2) show ?thesis by (simp add: lower_char_special)
  qed
  then show ?thesis unfolding plain_def by blast
qed

lemma lower_pattern: "lower (''%'' @ t @ ''%'') = ''%'' @ lower t @ ''%''"
  by (simp add: lower_def lower_char_def)

lemma ilike_contains:
  "plain t \<Longrightarrow> ilike s (''%'' @ t @ ''%'') \<longleftrightarrow> ci_contains t s"
  unfolding ilike_def ci_contains_def lower_pattern
  by (rule like_contains) (rule plain_lower)

lemma ilike_contains_cons:
  "plain t \<Longrightarrow> ilike s (CHR ''%'' # t @ ''%'') \<longleftrightarrow> ci_contains t s"
  using ilike_contains [of t s] by simp

lemma is_substring_empty: "is_substring [] s"
  by (cases s) simp_all

lemma ci_contains_empty: "ci_contains [] s"
  by (simp add: ci_contains_def lower_def is_substring_empty)

lemma where_spec:
  assumes "plain_text (user q)" and "plain_text (printer q)" and "plain_text (search q)"
  shows "where_holds (select_clauses q) r \<longleftrightarrow> spec_matches q r"
proof -
  have u: "list_all (\<lambda>c. clause_holds c r) (text_clause UserIlike (user q))
      \<longleftrightarrow> (case user q of None \<Rightarrow> True | Some t \<Rightarrow> ci_contains t (user_name r))"
    using assms(1)
    by (auto simp: text_clause_def plain_text_def ilike_contains_cons ci_contains_empty
        split: option.splits)
  have p: "list_all (\<lambda>c. clause_holds c r) (text_clause PrinterIlike (printer q))
      \<longleftrightarrow> (case printer q of None \<Rightarrow> True | Some t \<Rightarrow> ci_contains t (printer_name r))"
    using assms(2)
    by (auto simp: text_clause_def plain_text_def ilike_contains_cons ci_contains_empty
        split: option.splits)
  have s: "list_all (\<lambda>c. clause_holds c r) (text_clause DocOrUserIlike (search q))
      \<longleftrightarrow> (case search q of None \<Rightarrow> True
           | Some t \<Rightarrow> (case document_name r of None \<Rightarrow> False | Some d \<Rightarrow> ci_contains t d)
                       \<or> ci_contains t (user_name r))"
    using assms(3)
    by (auto simp: text_clause_def plain_text_def ilike_contains_cons ci_contains_empty
        split: option.splits)
  have d1: "list_all (\<lambda>c. clause_holds c r) (date_clause PrintTimeGe (startDate q))
      \<longleftrightarrow> (case startDate q of None \<Rightarrow> True | Some t \<Rightarrow> t \<le> print_time r)"
    by (simp add: date_clause_def split: option.splits)
  have d2: "list_all (\<lambda>c. clause_holds c r) (date_clause PrintTimeLe (endDate q))
      \<longleftrightarrow> (case endDate q of None \<Rightarrow> True | Some t \<Rightarrow> print_time r \<le> t)"
    by (simp add: date_clause_def split: option.splits)
  show ?thesis
    unfolding where_holds_def select_clauses_def spec_matches_def list_all_append u p s d1 d2
    by simp
qed

text \<open>
  C3, as the code has it. The rows that a query matches are the stored records that
  satisfy every filter supplied, a missing filter asking nothing: \<open>user\<close> and
  \<open>printer\<close> are case-insensitive substring matches on user name and printer name,
  \<open>startDate\<close> and \<open>endDate\<close> inclusive bounds on the print time, \<open>search\<close> a
  case-insensitive substring match on document name or user name. This holds for filter
  texts that contain none of \<open>%\<close>, \<open>_\<close> and the backslash; the handler puts the text
  into an ILIKE pattern as it is, where these characters are wildcards and escapes.
\<close>

theorem plain_filters_match_substrings:
  assumes "plain_text (user q)" and "plain_text (printer q)" and "plain_text (search q)"
  shows "r \<in> set (select_rows st q) \<longleftrightarrow> r \<in> set (print_jobs st) \<and> spec_matches q r"
  using where_spec [OF assms] by (auto simp: select_rows_def)

theorem plain_filters_match_substrings_witness:
  "plain_text (user (no_params\<lparr>user := Some ''ALI''\<rparr>))
   \<and> job 1 ''alice'' ''P1'' 100 (Some 5) \<in> set (select_rows two_jobs (no_params\<lparr>user := Some ''ALI''\<rparr>))
   \<and> job 2 ''bob'' ''P1'' 200 (Some 3) \<notin> set (select_rows two_jobs (no_params\<lparr>user := Some ''ALI''\<rparr>))"
proof -
  let ?q = "no_params\<lparr>user := Some ''ALI''\<rparr>"
  have h: "plain_text (user ?q)" "plain_text (printer ?q)" "plain_text (search ?q)"
    by (simp_all add: no_params_def plain_text_def plain_def)
  have a: "job 1 ''alice'' ''P1'' 100 (Some 5) \<in> set (print_jobs two_jobs)
      \<and> spec_matches ?q (job 1 ''alice'' ''P1'' 100 (Some 5))"
    by (simp add: two_jobs_def spec_matches_def no_params_def ci_contains_def lower_def
        lower_char_def job_def)
  have b: "\<not> spec_matches ?q (job 2 ''bob'' ''P1'' 200 (Some 3))"
    by (simp add: spec_matches_def no_params_def ci_contains_def lower_def
        lower_char_def job_def)
  from plain_filters_match_substrings [OF h, of "job 1 ''alice'' ''P1'' 100 (Some 5)" two_jobs] a
  have "job 1 ''alice'' ''P1'' 100 (Some 5) \<in> set (select_rows two_jobs ?q)" by blast
  moreover
  from plain_filters_match_substrings [OF h, of "job 2 ''bob'' ''P1'' 200 (Some 3)" two_jobs] b
  have "job 2 ''bob'' ''P1'' 200 (Some 3) \<notin> set (select_rows two_jobs ?q)" by blast
  ultimately show ?thesis using h(1) by blast
qed

text \<open>
  C3 as stated fails: with \<open>user=_\<close> the record of user \<open>bob\<close> is matched, although
  \<open>_\<close> is not a substring of \<open>bob\<close>.
\<close>

theorem wildcard_filter_counterexample:
  "job 2 ''bob'' ''P1'' 200 (Some 3) \<in> set (select_rows two_jobs (no_params\<lparr>user := Some ''_''\<rparr>))
   \<and> \<not> spec_matches (no_params\<lparr>user := Some ''_''\<rparr>) (job 2 ''bob'' ''P1'' 200 (Some 3))"
  by (simp add: example_defs spec_matches_def ci_contains_def ilike_def lower_def lower_char_def)

section \<open>Paging\<close>

lemma count_clauses_eq: "count_clauses q = select_clauses q"
  by (simp add: count_clauses_def select_clauses_def)

lemma count_rows_eq: "count_rows st q = int (length (select_rows st q))"
  by (simp add: count_rows_def select_rows_def sql_count_def count_clauses_eq)

lemma order_by_length: "order_by before rows out \<Longrightarrow> length out = length rows"
  by (metis order_by_def size_mset)

lemma order_by_set: "order_by before rows out \<Longrightarrow> set out = set rows"
  by (metis order_by_def set_mset_mset)

lemma order_by_print_time_exists: "\<exists>out. order_by print_time_desc rows out"
proof -
  have "sorted_wrt print_time_desc (rev (sort_key print_time rows))"
    unfolding print_time_desc_def sorted_wrt_rev
    using sorted_sort_key [of print_time rows] by (simp add: sorted_map)
  then have "order_by print_time_desc rows (rev (sort_key print_time rows))"
    by (simp add: order_by_def)
  then show ?thesis ..
qed

lemma offset_sent_self: "offset_sent x x"
  by (simp add: offset_sent_def js_exact_def)

lemma offset_sent_exact: "0 \<le> x \<Longrightarrow> x < 2 ^ 53 \<Longrightarrow> offset_sent x off \<Longrightarrow> off = x"
  by (simp add: offset_sent_def js_exact_def)


lemma get_print_jobs_total: "\<exists>resp. get_print_jobs st q resp"
  using order_by_print_time_exists offset_sent_self get_print_jobs.intros by blast

lemma ceil_div_ceiling:
  "b \<noteq> 0 \<Longrightarrow> ceil_div a b = Num \<lceil>real_of_int a / real_of_int b\<rceil>"
proof -
  assume "b \<noteq> 0"
  have "\<lceil>real_of_int a / real_of_int b\<rceil> = - \<lfloor>real_of_int (- a) / real_of_int b\<rfloor>"
    by (simp add: ceiling_def)
  also have "\<dots> = - ((- a) div b)"
    by (simp only: floor_divide_of_int_eq)
  finally show ?thesis using \<open>b \<noteq> 0\<close> by (simp add: ceil_div_def)
qed

lemma print_time_desc_fun: "print_time_desc = (\<lambda>a b. print_time b \<le> print_time a)"
  by (intro ext) (simp add: print_time_desc_def)

lemma order_by_unique:
  assumes a: "order_by print_time_desc rows a"
    and b: "order_by print_time_desc rows b"
    and d: "distinct (map print_time rows)"
  shows "a = b"
proof -
  have ma: "mset (map print_time a) = mset (map print_time rows)"
    and mb: "mset (map print_time b) = mset (map print_time rows)"
    using a b by (simp_all add: order_by_def)
  have da: "distinct (map print_time a)" and db: "distinct (map print_time b)"
    using ma mb d by (metis mset_eq_imp_distinct_iff)+
  have sa: "sorted (rev (map print_time a))" and sb: "sorted (rev (map print_time b))"
    using a b
    by (simp_all add: order_by_def print_time_desc_fun sorted_wrt_rev sorted_wrt_map
        flip: rev_map)
  have "set (rev (map print_time a)) = set (rev (map print_time b))"
    using ma mb by (metis mset_eq_setD set_rev)
  with sa sb da db have "rev (map print_time a) = rev (map print_time b)"
    by (intro sorted_distinct_set_unique) simp_all
  then have eq: "map print_time a = map print_time b" by simp
  have "inj_on print_time (set rows)"
    using d by (simp add: distinct_map)
  then have "inj_on print_time (set a \<union> set b)"
    using order_by_set [OF a] order_by_set [OF b] by simp
  with eq show ?thesis by (rule map_inj_on)
qed

lemma desc_distinct_strict:
  "sorted_wrt print_time_desc xs \<Longrightarrow> distinct (map print_time xs)
   \<Longrightarrow> sorted_wrt (\<lambda>a b. print_time b < print_time a) xs"
  by (induction xs) (auto simp: print_time_desc_def less_le image_iff)

lemma concat_chunks:
  "concat (map (\<lambda>i. take k (drop (i * k) xs)) [0..<m]) = take (m * k) xs"
proof (induction m)
  case 0
  then show ?case by simp
next
  case (Suc m)
  have "concat (map (\<lambda>i. take k (drop (i * k) xs)) [0..<Suc m])
      = take (m * k) xs @ take k (drop (m * k) xs)"
    using Suc by simp
  also have "\<dots> = take (m * k + k) xs"
    by (simp add: take_add)
  also have "m * k + k = Suc m * k" by simp
  finally show ?case .
qed

lemma upto_from_1: "[1..int m] = map (\<lambda>i. int i + 1) [0..<m]"
proof (induction m)
  case 0
  then show ?case by simp
next
  case (Suc m)
  have "[1..int (Suc m)] = [1..int m] @ [int m + 1]"
    using upto_rec2 [of 1 "int (Suc m)"] by (simp add: add.commute)
  with Suc show ?case by simp
qed

lemma two_jobs_first_page:
  "get_print_jobs two_jobs no_params
     (Inr \<lparr>data = [job 2 ''bob'' ''P1'' 200 (Some 3), job 1 ''alice'' ''P1'' 100 (Some 5)],
           pagination = \<lparr>p_page = 1, p_limit = 50, p_total = 2, p_pages = Num 1\<rparr>\<rparr>)"
proof -
  have "order_by print_time_desc (select_rows two_jobs no_params)
          [job 2 ''bob'' ''P1'' 200 (Some 3), job 1 ''alice'' ''P1'' 100 (Some 5)]"
    by (simp add: example_defs)
  from get_print_jobs.intros [OF this offset_sent_self] show ?thesis
    by (simp add: example_defs)
qed




lemma valid_paging_answer:
  assumes "get_print_jobs st q resp"
    and "1 \<le> page_of q" and "1 \<le> limit_of q"
    and "limit_of q < 2 ^ 63" and "(page_of q - 1) * limit_of q < 2 ^ 53"
  shows "\<exists>r. resp = Inr r
           \<and> p_total (pagination r) = int (length (select_rows st q))
           \<and> p_pages (pagination r)
               = Num \<lceil>real_of_int (p_total (pagination r)) / real_of_int (limit_of q)\<rceil>
           \<and> int (length (data r)) \<le> limit_of q
           \<and> (if select_rows st q = []
               then data r = [] \<and> p_total (pagination r) = 0 \<and> p_pages (pagination r) = Num 0
               else True)"
  using assms(1)
proof (cases rule: get_print_jobs.cases)
  case (1 ordered off')
  have x: "0 \<le> (page_of q - 1) * limit_of q"
    using assms(2,3) by simp
  have sent: "off' = (page_of q - 1) * limit_of q"
    using x assms(5) 1(3) by (rule offset_sent_exact)
  have off: "\<not> off' < 0" "int8_ok off'"
    using x assms(5) by (simp_all add: sent int8_ok_def)
  have lim: "\<not> limit_of q < 0" "limit_of q \<noteq> 0" "int8_ok (limit_of q)"
    using assms(3,4) by (auto simp: int8_ok_def)
  let ?rows = "take (nat (limit_of q)) (drop (nat off') ordered)"
  let ?r = "\<lparr>data = ?rows,
             pagination = \<lparr>p_page = page_of q, p_limit = limit_of q,
                            p_total = count_rows st q,
                            p_pages = ceil_div (count_rows st q) (limit_of q)\<rparr>\<rparr>"
  have resp: "resp = Inr ?r"
    using 1(1) off lim by (simp add: jobs_answer_def limit_offset_def Let_def)
  have len: "int (length ?rows) \<le> limit_of q"
    using assms(3) by simp
  have empty: "?rows = []" if "select_rows st q = []"
    using order_by_length [OF 1(2)] that by simp
  show ?thesis
    using resp len empty lim(2)
    by (auto simp: count_rows_eq ceil_div_ceiling)
qed

text \<open>
  C6, as the code has it. For a query with \<open>page \<ge> 1\<close> and \<open>limit \<ge> 1\<close>, a limit
  inside the database's 64-bit range and an offset \<open>(page - 1) * limit\<close> below \<open>2^53\<close>,
  the answer is a success; its total is the number of records that match the same
  filters unpaged, its page count is ceil(total / limit), the page has at most \<open>limit\<close>
  records, and when nothing matches the page is empty with total 0 and 0 pages.
\<close>

theorem query_count_consistent:
  assumes "1 \<le> page_of q" and "1 \<le> limit_of q"
    and "limit_of q < 2 ^ 63" and "(page_of q - 1) * limit_of q < 2 ^ 53"
  shows "(\<exists>resp. get_print_jobs st q resp)
       \<and> (\<forall>resp. get_print_jobs st q resp \<longrightarrow>
            (\<exists>r. resp = Inr r
               \<and> p_total (pagination r) = int (length (select_rows st q))
               \<and> p_pages (pagination r)
                   = Num \<lceil>real_of_int (p_total (pagination r)) / real_of_int (limit_of q)\<rceil>
               \<and> int (length (data r)) \<le> limit_of q
               \<and> (if select_rows st q = []
                   then data r = [] \<and> p_total (pagination r) = 0
                        \<and> p_pages (pagination r) = Num 0
                   else True)))"
  using get_print_jobs_total [of st q] valid_paging_answer [OF _ assms] by blast

theorem query_count_consistent_witness:
  "1 \<le> page_of no_params \<and> 1 \<le> limit_of no_params
   \<and> limit_of no_params < 2 ^ 63 \<and> (page_of no_params - 1) * limit_of no_params < 2 ^ 53
   \<and> get_print_jobs two_jobs no_params
       (Inr \<lparr>data = [job 2 ''bob'' ''P1'' 200 (Some 3), job 1 ''alice'' ''P1'' 100 (Some 5)],
             pagination = \<lparr>p_page = 1, p_limit = 50, p_total = 2, p_pages = Num 1\<rparr>\<rparr>)
   \<and> (2::int) = int (length (select_rows two_jobs no_params))
   \<and> Num 1 = Num \<lceil>real_of_int 2 / real_of_int (limit_of no_params)\<rceil>"
proof -
  have h: "1 \<le> page_of no_params" "1 \<le> limit_of no_params"
    "limit_of no_params < 2 ^ 63" "(page_of no_params - 1) * limit_of no_params < 2 ^ 53"
    by (simp_all add: page_of_def limit_of_def no_params_def)
  from query_count_consistent [OF h, of two_jobs] two_jobs_first_page
  have "\<exists>r. Inr \<lparr>data = [job 2 ''bob'' ''P1'' 200 (Some 3), job 1 ''alice'' ''P1'' 100 (Some 5)],
             pagination = \<lparr>p_page = 1, p_limit = 50, p_total = 2, p_pages = Num 1\<rparr>\<rparr>
           = (Inr r :: error + jobs_response)
         \<and> p_total (pagination r) = int (length (select_rows two_jobs no_params))
         \<and> p_pages (pagination r)
             = Num \<lceil>real_of_int (p_total (pagination r)) / real_of_int (limit_of no_params)\<rceil>"
    by blast
  with two_jobs_first_page h show ?thesis by auto
qed

text \<open>
  C6 as stated fails for \<open>limit=0\<close>: on an empty table the answer is a success whose
  page count is \<open>Math.ceil(0 / 0)\<close>, not a number, and not 0. (It also fails where
  the offset leaves the database's 64-bit range: the statement is rejected.)
\<close>

theorem zero_limit_counterexample:
  "get_print_jobs empty_store (no_params\<lparr>limit := Some 0\<rparr>)
     (Inr \<lparr>data = [], pagination = \<lparr>p_page = 1, p_limit = 0, p_total = 0, p_pages = NaN\<rparr>\<rparr>)"
proof -
  have "order_by print_time_desc (select_rows empty_store (no_params\<lparr>limit := Some 0\<rparr>)) []"
    by (simp add: example_defs)
  from get_print_jobs.intros [OF this offset_sent_self] show ?thesis
    by (simp add: example_defs)
qed

text \<open>
  C10, as the code has it. A page past the last one, with positive \<open>page\<close> and
  \<open>limit\<close>, a limit inside the database's 64-bit range and an offset
  \<open>(page - 1) * limit\<close> below \<open>2^53\<close>: the answer is a success with no rows, and total
  and page count are those of the full matching set.
\<close>

theorem page_past_last:
  assumes "0 < page_of q" and "0 < limit_of q"
    and "int (length (select_rows st q)) \<le> (page_of q - 1) * limit_of q"
    and "limit_of q < 2 ^ 63" and "(page_of q - 1) * limit_of q < 2 ^ 53"
  shows "(\<exists>resp. get_print_jobs st q resp)
       \<and> (\<forall>resp. get_print_jobs st q resp \<longrightarrow>
            (\<exists>r. resp = Inr r \<and> data r = []
               \<and> p_total (pagination r) = int (length (select_rows st q))
               \<and> p_pages (pagination r)
                   = Num \<lceil>real (length (select_rows st q)) / real_of_int (limit_of q)\<rceil>))"
proof -
  have "\<exists>r. resp = Inr r \<and> data r = []
           \<and> p_total (pagination r) = int (length (select_rows st q))
           \<and> p_pages (pagination r)
               = Num \<lceil>real (length (select_rows st q)) / real_of_int (limit_of q)\<rceil>"
    if "get_print_jobs st q resp" for resp
    using that
  proof (cases rule: get_print_jobs.cases)
    case (1 ordered off')
    have x: "0 \<le> (page_of q - 1) * limit_of q"
      using assms(1,2) by simp
    have sent: "off' = (page_of q - 1) * limit_of q"
      using x assms(5) 1(3) by (rule offset_sent_exact)
    have "length ordered \<le> nat off'"
      using order_by_length [OF 1(2)] assms(3) unfolding sent by linarith
    then have "drop (nat off') ordered = []"
      by simp
    moreover have "\<not> off' < 0" "int8_ok off'"
      using x assms(5) by (simp_all add: sent int8_ok_def)
    moreover have "\<not> limit_of q < 0" "limit_of q \<noteq> 0" "int8_ok (limit_of q)"
      using assms(2,4) by (auto simp: int8_ok_def)
    ultimately show ?thesis
      using 1(1)
      by (simp add: jobs_answer_def limit_offset_def Let_def count_rows_eq ceil_div_ceiling)
  qed
  with get_print_jobs_total show ?thesis by blast
qed

theorem page_past_last_witness:
  "0 < page_of (no_params\<lparr>page := Some 2\<rparr>) \<and> 0 < limit_of (no_params\<lparr>page := Some 2\<rparr>)
   \<and> limit_of (no_params\<lparr>page := Some 2\<rparr>) < 2 ^ 63
   \<and> (page_of (no_params\<lparr>page := Some 2\<rparr>) - 1) * limit_of (no_params\<lparr>page := Some 2\<rparr>) < 2 ^ 53
   \<and> int (length (select_rows two_jobs (no_params\<lparr>page := Some 2\<rparr>)))
        \<le> (page_of (no_params\<lparr>page := Some 2\<rparr>) - 1) * limit_of (no_params\<lparr>page := Some 2\<rparr>)
   \<and> get_print_jobs two_jobs (no_params\<lparr>page := Some 2\<rparr>)
       (Inr \<lparr>data = [], pagination = \<lparr>p_page = 2, p_limit = 50, p_total = 2, p_pages = Num 1\<rparr>\<rparr>)
   \<and> Num 1 = Num \<lceil>real (length (select_rows two_jobs (no_params\<lparr>page := Some 2\<rparr>)))
                   / real_of_int (limit_of (no_params\<lparr>page := Some 2\<rparr>))\<rceil>"
proof -
  let ?q = "no_params\<lparr>page := Some 2\<rparr>"
  have h: "0 < page_of ?q" "0 < limit_of ?q"
    "int (length (select_rows two_jobs ?q)) \<le> (page_of ?q - 1) * limit_of ?q"
    "limit_of ?q < 2 ^ 63" "(page_of ?q - 1) * limit_of ?q < 2 ^ 53"
    by (simp_all add: example_defs)
  have "order_by print_time_desc (select_rows two_jobs ?q)
          [job 2 ''bob'' ''P1'' 200 (Some 3), job 1 ''alice'' ''P1'' 100 (Some 5)]"
    by (simp add: example_defs)
  from get_print_jobs.intros [OF this offset_sent_self]
  have g: "get_print_jobs two_jobs ?q
       (Inr \<lparr>data = [], pagination = \<lparr>p_page = 2, p_limit = 50, p_total = 2, p_pages = Num 1\<rparr>\<rparr>)"
    by (simp add: example_defs)
  from page_past_last [OF h] g
  have "\<exists>r. Inr \<lparr>data = [], pagination = \<lparr>p_page = 2, p_limit = 50, p_total = 2, p_pages = Num 1\<rparr>\<rparr>
           = (Inr r :: error + jobs_response)
         \<and> p_pages (pagination r)
             = Num \<lceil>real (length (select_rows two_jobs ?q)) / real_of_int (limit_of ?q)\<rceil>"
    by blast
  with g h show ?thesis by auto
qed

text \<open>
  C10 as stated fails: with \<open>page=4000000000\<close> and \<open>limit=4000000000\<close> the page is
  past the last one, the offset 15999999996000000000 is beyond the database's 64-bit
  range, the statement is rejected and the caller gets the storage failure.
\<close>

theorem huge_offset_counterexample:
  "0 < page_of (no_params\<lparr>page := Some 4000000000, limit := Some 4000000000\<rparr>)
   \<and> 0 < limit_of (no_params\<lparr>page := Some 4000000000, limit := Some 4000000000\<rparr>)
   \<and> int (length (select_rows two_jobs (no_params\<lparr>page := Some 4000000000, limit := Some 4000000000\<rparr>)))
        \<le> (page_of (no_params\<lparr>page := Some 4000000000, limit := Some 4000000000\<rparr>) - 1)
            * limit_of (no_params\<lparr>page := Some 4000000000, limit := Some 4000000000\<rparr>)
   \<and> get_print_jobs two_jobs (no_params\<lparr>page := Some 4000000000, limit := Some 4000000000\<rparr>)
        (Inl StorageError)"
proof -
  let ?q = "no_params\<lparr>page := Some 4000000000, limit := Some 4000000000\<rparr>"
  have "order_by print_time_desc (select_rows two_jobs ?q)
          [job 2 ''bob'' ''P1'' 200 (Some 3), job 1 ''alice'' ''P1'' 100 (Some 5)]"
    by (simp add: example_defs)
  from get_print_jobs.intros [OF this offset_sent_self]
  have "get_print_jobs two_jobs ?q (Inl StorageError)"
    by (simp add: example_defs)
  then show ?thesis by (simp add: example_defs)
qed

text \<open>Every answer is the storage failure once the offset is beyond the 64-bit range.\<close>

lemma offset_beyond_bigint:
  assumes "2 ^ 63 \<le> (page_of q - 1) * limit_of q"
    and "get_print_jobs st q resp"
  shows "resp = Inl StorageError"
  using assms(2)
proof (cases rule: get_print_jobs.cases)
  case (1 ordered off')
  have "\<not> js_exact ((page_of q - 1) * limit_of q)"
    using assms(1) by (simp add: js_exact_def)
  with 1(3) assms(1) have "2 ^ 63 \<le> off'"
    by (auto simp: offset_sent_def split: if_splits)
  then have "\<not> int8_ok off'" by (simp add: int8_ok_def)
  with 1(1) show ?thesis by (simp add: jobs_answer_def limit_offset_def)
qed

lemma page_ordered:
  assumes "get_print_jobs st q (Inr r)"
  shows "sorted_wrt print_time_desc (data r) \<and> set (data r) \<subseteq> set (select_rows st q)"
  using assms
proof (cases rule: get_print_jobs.cases)
  case (1 ordered off')
  from 1(1) obtain i j where r: "data r = take i (drop j ordered)"
    by (auto simp: jobs_answer_def limit_offset_def Let_def split: if_splits)
  have "sorted_wrt print_time_desc ordered" "set ordered = set (select_rows st q)"
    using 1(2) order_by_set [OF 1(2)] by (simp_all add: order_by_def)
  moreover have "set (take i (drop j ordered)) \<subseteq> set ordered"
    by (meson set_take_subset set_drop_subset subset_trans)
  ultimately show ?thesis
    unfolding r by (simp add: sorted_wrt_take sorted_wrt_drop)
qed

lemma page_offset_small:
  assumes l: "1 \<le> l"
    and n: "n = \<lceil>real k / real_of_int l\<rceil>"
    and p: "p \<in> {1..n}"
  shows "0 \<le> (p - 1) * l \<and> (p - 1) * l < int k"
proof -
  have "real_of_int n - 1 < real k / real_of_int l"
    unfolding n using ceiling_correct [of "real k / real_of_int l"] by simp
  then have "(real_of_int n - 1) * real_of_int l < real k"
    using l by (simp add: pos_less_divide_eq)
  then have "real_of_int ((n - 1) * l) < real_of_int (int k)"
    by simp
  then have "(n - 1) * l < int k"
    by (simp only: of_int_less_iff)
  moreover have "(p - 1) * l \<le> (n - 1) * l"
    using p l by (intro mult_right_mono) simp_all
  moreover have "0 \<le> (p - 1) * l"
    using p l by simp
  ultimately show ?thesis by simp
qed

lemma pages_concat:
  assumes l: "limit_of q = l" "1 \<le> l" "l < 2 ^ 63"
    and small: "int (length (select_rows st q)) \<le> 2 ^ 53"
    and d: "distinct (map print_time (select_rows st q))"
    and n: "n = \<lceil>real (length (select_rows st q)) / real_of_int l\<rceil>"
    and each: "\<forall>p \<in> {1..n}. get_print_jobs st (q\<lparr>page := Some p\<rparr>) (Inr (answer p))"
  shows "mset (concat (map (\<lambda>p. data (answer p)) [1..n])) = mset (select_rows st q)
       \<and> sorted_wrt (\<lambda>a b. print_time b < print_time a)
           (concat (map (\<lambda>p. data (answer p)) [1..n]))"
proof -
  obtain S where S: "order_by print_time_desc (select_rows st q) S"
    using order_by_print_time_exists by blast
  have "0 \<le> real (length (select_rows st q)) / real_of_int l"
    using l(2) by simp
  then have n0: "0 \<le> n"
    unfolding n using ceiling_mono [of 0 "real (length (select_rows st q)) / real_of_int l"]
    by simp
  define m where "m = nat n"
  define k where "k = nat l"
  have nm: "n = int m" using n0 by (simp add: m_def)
  have page: "data (answer p) = take k (drop ((nat p - 1) * k) S)" if "p \<in> {1..n}" for p
  proof -
    have g: "get_print_jobs st (q\<lparr>page := Some p\<rparr>) (Inr (answer p))"
      using each that by blast
    have p1: "1 \<le> p" using that by simp
    from g show ?thesis
    proof (cases rule: get_print_jobs.cases)
      case (1 ordered off')
      have sel: "select_rows st (q\<lparr>page := Some p\<rparr>) = select_rows st q"
        by (simp add: select_rows_def select_clauses_def)
      have ql: "limit_of (q\<lparr>page := Some p\<rparr>) = l" and qp: "page_of (q\<lparr>page := Some p\<rparr>) = p"
        using l(1) by (simp_all add: limit_of_def page_of_def)
      have x: "0 \<le> (p - 1) * l" "(p - 1) * l < 2 ^ 53"
        using page_offset_small [OF l(2) n that] small by simp_all
      have sent: "off' = (p - 1) * l"
        using x 1(3) unfolding ql qp by (rule offset_sent_exact)
      have "ordered = S"
        using 1(2) S d unfolding sel by (rule order_by_unique)
      moreover have "nat off' = (nat p - 1) * k"
        using p1 l(2) by (simp add: sent k_def nat_mult_distrib nat_diff_distrib)
      moreover have "\<not> off' < 0" "int8_ok off'" "\<not> l < 0" "int8_ok l"
        using x l(2,3) by (simp_all add: sent int8_ok_def)
      ultimately show ?thesis
        using 1(1) by (simp add: jobs_answer_def limit_offset_def Let_def k_def ql)
    qed
  qed
  have "map (\<lambda>p. data (answer p)) [1..n] = map (\<lambda>p. take k (drop ((nat p - 1) * k) S)) [1..n]"
    by (rule map_cong) (simp_all add: page)
  also have "\<dots> = map (\<lambda>i. take k (drop (i * k) S)) [0..<m]"
    unfolding nm upto_from_1 by (simp add: comp_def nat_add_distrib)
  finally have "concat (map (\<lambda>p. data (answer p)) [1..n]) = take (m * k) S"
    by (simp add: concat_chunks)
  moreover have "length S \<le> m * k"
  proof -
    have "real (length (select_rows st q)) / real_of_int l \<le> real_of_int n"
      unfolding n by (rule le_of_int_ceiling)
    then have "real (length (select_rows st q)) \<le> real_of_int n * real_of_int l"
      using l(2) by (simp add: pos_divide_le_eq)
    then have "int (length (select_rows st q)) \<le> n * l"
      by (metis of_int_le_iff of_int_mult of_int_of_nat_eq)
    then have "int (length S) \<le> int (m * k)"
      using order_by_length [OF S] l(2) n0 by (simp add: m_def k_def)
    then show ?thesis by (simp only: of_nat_le_iff)
  qed
  ultimately have all: "concat (map (\<lambda>p. data (answer p)) [1..n]) = S" by simp
  have "sorted_wrt (\<lambda>a b. print_time b < print_time a) S"
  proof (rule desc_distinct_strict)
    show "sorted_wrt print_time_desc S" using S by (simp add: order_by_def)
    have "mset (map print_time S) = mset (map print_time (select_rows st q))"
      using S by (simp add: order_by_def)
    then show "distinct (map print_time S)" using d by (metis mset_eq_imp_distinct_iff)
  qed
  then show ?thesis using S unfolding all by (simp add: order_by_def)
qed

text \<open>
  C4, as the code has it. The statement orders by print time only. For a page size of
  at least 1 inside the database's 64-bit range, and at most \<open>2^53\<close> matching records,
  every page from 1 to ceil(total/limit) is answered, and each page holds matching
  records in descending order of print time. When the print times of the matching
  records are pairwise distinct, these pages, one after the other, hold every matching
  record exactly once, in descending order of print time.
\<close>

theorem pages_cover_matching_rows:
  assumes l: "limit_of q = l" "1 \<le> l" "l < 2 ^ 63"
    and small: "int (length (select_rows st q)) \<le> 2 ^ 53"
    and n: "n = \<lceil>real (length (select_rows st q)) / real_of_int l\<rceil>"
  shows "(\<forall>p \<in> {1..n}. \<exists>r. get_print_jobs st (q\<lparr>page := Some p\<rparr>) (Inr r))
       \<and> (\<forall>answer.
            (\<forall>p \<in> {1..n}. get_print_jobs st (q\<lparr>page := Some p\<rparr>) (Inr (answer p))) \<longrightarrow>
            (\<forall>p \<in> {1..n}. sorted_wrt print_time_desc (data (answer p))
                           \<and> set (data (answer p)) \<subseteq> set (select_rows st q))
          \<and> (distinct (map print_time (select_rows st q)) \<longrightarrow>
                mset (concat (map (\<lambda>p. data (answer p)) [1..n])) = mset (select_rows st q)
              \<and> sorted_wrt (\<lambda>a b. print_time b < print_time a)
                  (concat (map (\<lambda>p. data (answer p)) [1..n]))))"
proof -
  have ex: "\<exists>r. get_print_jobs st (q\<lparr>page := Some p\<rparr>) (Inr r)" if "p \<in> {1..n}" for p
  proof -
    obtain resp where g: "get_print_jobs st (q\<lparr>page := Some p\<rparr>) resp"
      using get_print_jobs_total by blast
    have "1 \<le> page_of (q\<lparr>page := Some p\<rparr>)" "1 \<le> limit_of (q\<lparr>page := Some p\<rparr>)"
      "limit_of (q\<lparr>page := Some p\<rparr>) < 2 ^ 63"
      "(page_of (q\<lparr>page := Some p\<rparr>) - 1) * limit_of (q\<lparr>page := Some p\<rparr>) < 2 ^ 53"
      using that l page_offset_small [OF l(2) n that] small
      by (simp_all add: page_of_def limit_of_def)
    from valid_paging_answer [OF g this] g show ?thesis by blast
  qed
  have sel: "select_rows st (q\<lparr>page := Some p\<rparr>) = select_rows st q" for p
    by (simp add: select_rows_def select_clauses_def)
  have "(\<forall>p \<in> {1..n}. sorted_wrt print_time_desc (data (answer p))
                       \<and> set (data (answer p)) \<subseteq> set (select_rows st q))
      \<and> (distinct (map print_time (select_rows st q)) \<longrightarrow>
            mset (concat (map (\<lambda>p. data (answer p)) [1..n])) = mset (select_rows st q)
          \<and> sorted_wrt (\<lambda>a b. print_time b < print_time a)
              (concat (map (\<lambda>p. data (answer p)) [1..n])))"
    if each: "\<forall>p \<in> {1..n}. get_print_jobs st (q\<lparr>page := Some p\<rparr>) (Inr (answer p))"
    for answer
    using page_ordered [of st "q\<lparr>page := Some p\<rparr>" "answer p" for p, unfolded sel]
      pages_concat [OF l small _ n each] each
    by blast
  with ex show ?thesis by blast
qed

theorem pages_cover_matching_rows_witness:
  "limit_of (no_params\<lparr>limit := Some 1\<rparr>) = 1
   \<and> distinct (map print_time (select_rows two_jobs (no_params\<lparr>limit := Some 1\<rparr>)))
   \<and> get_print_jobs two_jobs (no_params\<lparr>limit := Some 1, page := Some 1\<rparr>) (Inr (two_pages 1))
   \<and> get_print_jobs two_jobs (no_params\<lparr>limit := Some 1, page := Some 2\<rparr>) (Inr (two_pages 2))
   \<and> mset (concat (map (\<lambda>p. data (two_pages p)) [1..2]))
       = mset (select_rows two_jobs (no_params\<lparr>limit := Some 1\<rparr>))
   \<and> sorted_wrt (\<lambda>a b. print_time b < print_time a)
       (concat (map (\<lambda>p. data (two_pages p)) [1..2]))"
proof -
  let ?a = "job 1 ''alice'' ''P1'' 100 (Some 5)" and ?b = "job 2 ''bob'' ''P1'' 200 (Some 3)"
  let ?q = "no_params\<lparr>limit := Some 1\<rparr>"
  have l: "limit_of ?q = 1" "(1::int) \<le> 1" "(1::int) < 2 ^ 63"
    by (simp_all add: limit_of_def)
  have small: "int (length (select_rows two_jobs ?q)) \<le> 2 ^ 53"
    by (simp add: example_defs)
  have d: "distinct (map print_time (select_rows two_jobs ?q))"
    by (simp add: example_defs)
  have n: "(2::int) = \<lceil>real (length (select_rows two_jobs ?q)) / real_of_int 1\<rceil>"
    by (simp add: example_defs)
  have o1: "order_by print_time_desc (select_rows two_jobs (?q\<lparr>page := Some 1\<rparr>)) [?b, ?a]"
    by (simp add: example_defs)
  have o2: "order_by print_time_desc (select_rows two_jobs (?q\<lparr>page := Some 2\<rparr>)) [?b, ?a]"
    by (simp add: example_defs)
  have p1: "get_print_jobs two_jobs (?q\<lparr>page := Some 1\<rparr>) (Inr (two_pages 1))"
    using get_print_jobs.intros [OF o1 offset_sent_self] by (simp add: example_defs two_pages_def)
  have p2: "get_print_jobs two_jobs (?q\<lparr>page := Some 2\<rparr>) (Inr (two_pages 2))"
    using get_print_jobs.intros [OF o2 offset_sent_self] by (simp add: example_defs two_pages_def)
  have each: "\<forall>p \<in> {1..2}. get_print_jobs two_jobs (?q\<lparr>page := Some p\<rparr>) (Inr (two_pages p))"
  proof
    fix p :: int assume "p \<in> {1..2}"
    then have "p = 1 \<or> p = 2" by auto
    with p1 p2 show "get_print_jobs two_jobs (?q\<lparr>page := Some p\<rparr>) (Inr (two_pages p))"
      by auto
  qed
  from pages_cover_matching_rows [OF l small n] each d
  have "mset (concat (map (\<lambda>p. data (two_pages p)) [1..2])) = mset (select_rows two_jobs ?q)
      \<and> sorted_wrt (\<lambda>a b. print_time b < print_time a)
          (concat (map (\<lambda>p. data (two_pages p)) [1..2]))"
    by blast
  with l(1) d p1 p2 show ?thesis by blast
qed

text \<open>
  C4 as stated fails: nothing breaks ties. With two records of equal print time and one
  record a page, the database may order the rows for page 1 as bob, alice and for page 2
  as alice, bob; both pages then hold bob's record and no page holds alice's.
\<close>

theorem tie_order_counterexample:
  "get_print_jobs tied_jobs (no_params\<lparr>page := Some 1, limit := Some 1\<rparr>)
     (Inr \<lparr>data = [job 2 ''bob'' ''P1'' 100 (Some 5)],
           pagination = \<lparr>p_page = 1, p_limit = 1, p_total = 2, p_pages = Num 2\<rparr>\<rparr>)
   \<and> get_print_jobs tied_jobs (no_params\<lparr>page := Some 2, limit := Some 1\<rparr>)
     (Inr \<lparr>data = [job 2 ''bob'' ''P1'' 100 (Some 5)],
           pagination = \<lparr>p_page = 2, p_limit = 1, p_total = 2, p_pages = Num 2\<rparr>\<rparr>)"
proof -
  let ?a = "job 1 ''alice'' ''P1'' 100 (Some 5)" and ?b = "job 2 ''bob'' ''P1'' 100 (Some 5)"
  let ?q1 = "no_params\<lparr>page := Some 1, limit := Some 1\<rparr>"
  let ?q2 = "no_params\<lparr>page := Some 2, limit := Some 1\<rparr>"
  have "order_by print_time_desc (select_rows tied_jobs ?q1) [?b, ?a]"
    by (simp add: example_defs)
  from get_print_jobs.intros [OF this offset_sent_self]
  have 1: "get_print_jobs tied_jobs ?q1
     (Inr \<lparr>data = [?b], pagination = \<lparr>p_page = 1, p_limit = 1, p_total = 2, p_pages = Num 2\<rparr>\<rparr>)"
    by (simp add: example_defs)
  have "order_by print_time_desc (select_rows tied_jobs ?q2) [?a, ?b]"
    by (simp add: example_defs)
  from get_print_jobs.intros [OF this offset_sent_self]
  have 2: "get_print_jobs tied_jobs ?q2
     (Inr \<lparr>data = [?b], pagination = \<lparr>p_page = 2, p_limit = 1, p_total = 2, p_pages = Num 2\<rparr>\<rparr>)"
    by (simp add: example_defs)
  from 1 2 show ?thesis by blast
qed

section \<open>Statistics\<close>

lemma dateFilter_holds: "where_holds (dateFilter q) = in_window q"
  by (intro ext) (auto simp: dateFilter_def where_holds_def in_window_def split: option.splits)

lemma stats_rows_eq: "stats_rows st q = filter (in_window q) (print_jobs st)"
  by (simp add: stats_rows_def dateFilter_holds)

lemma sum_all_null: "list_all (\<lambda>v. v = None) vs \<Longrightarrow> sum_list (map pages_of vs) = 0"
  by (induction vs) (auto simp: pages_of_def)

lemma sql_sum_or_0:
  "(case sql_sum vs of None \<Rightarrow> 0 | Some n \<Rightarrow> n) = sum_list (map pages_of vs)"
  by (simp add: sql_sum_def sum_all_null)

lemma order_by_exists:
  assumes total: "\<And>a b. before a b \<or> before b a"
    and trans: "\<And>a b c. before a b \<Longrightarrow> before b c \<Longrightarrow> before a c"
  shows "\<exists>out. order_by before rows out"
proof (induction rows)
  case Nil
  show ?case by (simp add: order_by_def)
next
  case (Cons x rows)
  then obtain out where out: "mset out = mset rows" "sorted_wrt before out"
    by (auto simp: order_by_def)
  define lead where "lead = takeWhile (\<lambda>y. before y x) out"
  define rear where "rear = dropWhile (\<lambda>y. before y x) out"
  have split: "out = lead @ rear" by (simp add: lead_def rear_def)
  have f: "\<forall>y \<in> set lead. before y x"
    by (auto simp: lead_def dest: set_takeWhileD)
  have b: "\<forall>z \<in> set rear. before x z"
  proof (cases rear)
    case Nil
    then show ?thesis by simp
  next
    case (Cons z0 rest)
    have "dropWhile (\<lambda>y. before y x) out = z0 # rest"
      using Cons by (simp add: rear_def)
    then have "\<not> before z0 x"
      by (metis hd_dropWhile list.sel(1) list.distinct(1))
    then have x0: "before x z0" using total by blast
    have "sorted_wrt before rear" using out(2) split by (simp add: sorted_wrt_append)
    then have "\<forall>z \<in> set rest. before z0 z" using Cons by simp
    with x0 trans Cons show ?thesis by auto
  qed
  have "sorted_wrt before (lead @ x # rear)"
    using out(2) split f b by (auto simp: sorted_wrt_append)
  moreover have "mset (lead @ x # rear) = mset (x # rows)"
    using out(1) split by simp
  ultimately show ?case unfolding order_by_def by blast
qed

lemma get_stats_total: "\<exists>r. get_stats st q r"
proof -
  have "\<exists>us. order_by page_count_desc (group_by user_name (stats_rows st q)) us"
    by (rule order_by_exists) (auto simp: page_count_desc_def split: option.splits)
  moreover have "\<exists>ps. order_by job_count_desc (group_by printer_name (stats_rows st q)) ps"
    by (rule order_by_exists) (auto simp: job_count_desc_def)
  ultimately show ?thesis using get_stats.intros by blast
qed

lemma group_by_names: "map group_name (group_by col M) = remdups (map col M)"
  by (simp add: group_by_def comp_def)

lemma group_by_set: "g \<in> set (group_by col M) \<longleftrightarrow> entry_for col M g"
proof
  assume "g \<in> set (group_by col M)"
  then obtain k where k: "k \<in> set M" and g:
    "g = \<lparr>group_name = col k,
          job_count = sql_count (filter (\<lambda>r. col r = col k) M),
          page_count_sum = sql_sum (map page_count (filter (\<lambda>r. col r = col k) M))\<rparr>"
    by (auto simp: group_by_def)
  have "filter (\<lambda>x. col x = col k) M \<noteq> []"
    using k by (auto simp: filter_empty_conv)
  then show "entry_for col M g"
    by (simp add: g entry_for_def sql_count_def sql_sum_def list.pred_map comp_def)
next
  assume e: "entry_for col M g"
  then have "filter (\<lambda>x. col x = group_name g) M \<noteq> []"
    by (simp add: entry_for_def Let_def)
  then have "group_name g \<in> col ` set M"
    by (force simp: filter_empty_conv)
  moreover have "g = \<lparr>group_name = group_name g,
          job_count = sql_count (filter (\<lambda>r. col r = group_name g) M),
          page_count_sum = sql_sum (map page_count (filter (\<lambda>r. col r = group_name g) M))\<rparr>"
    using e by (simp add: entry_for_def Let_def sql_count_def sql_sum_def list.pred_map comp_def)
  ultimately show "g \<in> set (group_by col M)"
    unfolding group_by_def by (simp add: image_iff) metis
qed

lemma top_list:
  assumes ord: "order_by before (group_by col M) out"
  shows "length (take 10 out) = min 10 (card (col ` set M))"
    and "distinct (map group_name (take 10 out))"
    and "list_all (entry_for col M) (take 10 out)"
    and "sorted_wrt before (take 10 out)"
    and "\<And>g h. entry_for col M h \<Longrightarrow> group_name h \<notin> set (map group_name (take 10 out))
           \<Longrightarrow> g \<in> set (take 10 out) \<Longrightarrow> before g h"
proof -
  have m: "mset out = mset (group_by col M)" and s: "sorted_wrt before out"
    using ord by (simp_all add: order_by_def)
  have "length out = length (group_by col M)"
    using m by (metis size_mset)
  also have "\<dots> = length (remdups (map col M))"
    by (simp add: group_by_def)
  also have "\<dots> = card (col ` set M)"
    by (simp add: length_remdups_card_conv)
  finally show "length (take 10 out) = min 10 (card (col ` set M))"
    by (simp add: min.commute)
  have "mset (map group_name out) = mset (map group_name (group_by col M))"
    using m by simp
  then have "distinct (map group_name out)"
    by (metis group_by_names distinct_remdups mset_eq_imp_distinct_iff)
  then show "distinct (map group_name (take 10 out))"
    by (simp add: take_map [symmetric] distinct_take del: take_map)
  have so: "set out = set (group_by col M)"
    using m by (metis set_mset_mset)
  have "set (take 10 out) \<subseteq> set out" by (rule set_take_subset)
  then show "list_all (entry_for col M) (take 10 out)"
    using so by (auto simp: list_all_iff group_by_set)
  have s2: "sorted_wrt before (take 10 out @ drop 10 out)"
    using s by simp
  then show "sorted_wrt before (take 10 out)"
    by (simp only: sorted_wrt_append)
  fix g h
  assume h: "entry_for col M h"
    and hn: "group_name h \<notin> set (map group_name (take 10 out))"
    and g: "g \<in> set (take 10 out)"
  have "h \<in> set out" using h so by (simp add: group_by_set)
  then have "h \<in> set (take 10 out) \<union> set (drop 10 out)"
    by (metis append_take_drop_id set_append)
  moreover have "h \<notin> set (take 10 out)" using hn by auto
  ultimately have "h \<in> set (drop 10 out)" by blast
  with s2 g show "before g h" by (simp only: sorted_wrt_append)
qed

lemma page_count_desc_by_pages: "page_count_desc a b \<Longrightarrow> by_pages a b"
  by (auto simp: page_count_desc_def by_pages_def split: option.splits)

lemma job_count_desc_by_jobs: "job_count_desc a b \<Longrightarrow> by_jobs a b"
  by (simp add: job_count_desc_def by_jobs_def)

lemma two_jobs_stats:
  "get_stats two_jobs no_params
     \<lparr>totalJobs = 2, totalPages = 8,
      topUsers = [\<lparr>group_name = ''alice'', job_count = 1, page_count_sum = Some 5\<rparr>,
                  \<lparr>group_name = ''bob'', job_count = 1, page_count_sum = Some 3\<rparr>],
      topPrinters = [\<lparr>group_name = ''P1'', job_count = 2, page_count_sum = Some 8\<rparr>]\<rparr>"
proof -
  have u: "order_by page_count_desc (group_by user_name (stats_rows two_jobs no_params))
      [\<lparr>group_name = ''alice'', job_count = 1, page_count_sum = Some 5\<rparr>,
       \<lparr>group_name = ''bob'', job_count = 1, page_count_sum = Some 3\<rparr>]"
    by (simp add: stats_defs)
  have p: "order_by job_count_desc (group_by printer_name (stats_rows two_jobs no_params))
      [\<lparr>group_name = ''P1'', job_count = 2, page_count_sum = Some 8\<rparr>]"
    by (simp add: stats_defs)
  from get_stats.intros [OF u p] show ?thesis
    by (simp add: stats_defs)
qed

text \<open>
  C7. \<open>totalJobs\<close> is the number of records that pass the date filter, \<open>totalPages\<close>
  the sum of their page counts, and \<open>totalPages\<close> is 0 when no record passes.
\<close>

theorem stats_totals:
  "(\<exists>r. get_stats st q r)
   \<and> (\<forall>r. get_stats st q r \<longrightarrow>
        totalJobs r = int (length (filter (in_window q) (print_jobs st)))
      \<and> totalPages r = (\<Sum>x\<leftarrow>filter (in_window q) (print_jobs st). pages_of (page_count x))
      \<and> (if filter (in_window q) (print_jobs st) = [] then totalPages r = 0 else True))"
proof -
  have "totalJobs r = int (length (filter (in_window q) (print_jobs st)))
      \<and> totalPages r = (\<Sum>x\<leftarrow>filter (in_window q) (print_jobs st). pages_of (page_count x))
      \<and> (if filter (in_window q) (print_jobs st) = [] then totalPages r = 0 else True)"
    if "get_stats st q r" for r
    using that
  proof (cases rule: get_stats.cases)
    case (1 us ps)
    have "totalPages r = sum_list (map pages_of (map page_count (stats_rows st q)))"
      using 1(1) by (simp add: stats_answer_def sql_sum_or_0)
    then have "totalPages r
        = (\<Sum>x\<leftarrow>filter (in_window q) (print_jobs st). pages_of (page_count x))"
      by (simp add: stats_rows_eq comp_def)
    moreover have "totalJobs r = int (length (filter (in_window q) (print_jobs st)))"
      using 1(1) by (simp add: stats_answer_def sql_count_def stats_rows_eq)
    ultimately show ?thesis by simp
  qed
  with get_stats_total show ?thesis by blast
qed

theorem stats_totals_witness:
  "get_stats two_jobs no_params
     \<lparr>totalJobs = 2, totalPages = 8,
      topUsers = [\<lparr>group_name = ''alice'', job_count = 1, page_count_sum = Some 5\<rparr>,
                  \<lparr>group_name = ''bob'', job_count = 1, page_count_sum = Some 3\<rparr>],
      topPrinters = [\<lparr>group_name = ''P1'', job_count = 2, page_count_sum = Some 8\<rparr>]\<rparr>
   \<and> (2::int) = int (length (filter (in_window no_params) (print_jobs two_jobs)))
   \<and> (8::int) = (\<Sum>x\<leftarrow>filter (in_window no_params) (print_jobs two_jobs). pages_of (page_count x))"
  using stats_totals [of two_jobs no_params] two_jobs_stats by auto

lemma top_lists_answer:
  assumes "get_stats st q r" and M: "M = filter (in_window q) (print_jobs st)"
  shows "length (topUsers r) = min 10 (card (user_name ` set M))
       \<and> distinct (map group_name (topUsers r))
       \<and> list_all (entry_for user_name M) (topUsers r)
       \<and> sorted_wrt by_pages (topUsers r)
       \<and> (\<forall>h. entry_for user_name M h \<longrightarrow> group_name h \<notin> set (map group_name (topUsers r))
             \<longrightarrow> list_all (\<lambda>g. by_pages g h) (topUsers r))
       \<and> length (topPrinters r) = min 10 (card (printer_name ` set M))
       \<and> distinct (map group_name (topPrinters r))
       \<and> list_all (entry_for printer_name M) (topPrinters r)
       \<and> sorted_wrt by_jobs (topPrinters r)
       \<and> (\<forall>h. entry_for printer_name M h \<longrightarrow> group_name h \<notin> set (map group_name (topPrinters r))
             \<longrightarrow> list_all (\<lambda>g. by_jobs g h) (topPrinters r))"
  using assms(1)
proof (cases rule: get_stats.cases)
  case (1 us ps)
  have rows: "stats_rows st q = M" by (simp add: M stats_rows_eq)
  have tu: "topUsers r = take 10 us" and tp: "topPrinters r = take 10 ps"
    using 1(1) by (simp_all add: stats_answer_def)
  note u = top_list [OF 1(2) [unfolded rows]]
  note p = top_list [OF 1(3) [unfolded rows]]
  have "sorted_wrt by_pages (take 10 us)"
    using u(4) by (rule sorted_wrt_mono_rel [rotated]) (simp add: page_count_desc_by_pages)
  moreover have "sorted_wrt by_jobs (take 10 ps)"
    using p(4) by (rule sorted_wrt_mono_rel [rotated]) (simp add: job_count_desc_by_jobs)
  moreover have "list_all (\<lambda>g. by_pages g h) (take 10 us)"
    if "entry_for user_name M h" "group_name h \<notin> set (map group_name (take 10 us))" for h
    using u(5) [OF that] by (simp add: list_all_iff page_count_desc_by_pages)
  moreover have "list_all (\<lambda>g. by_jobs g h) (take 10 ps)"
    if "entry_for printer_name M h" "group_name h \<notin> set (map group_name (take 10 ps))" for h
    using p(5) [OF that] by (simp add: list_all_iff job_count_desc_by_jobs)
  ultimately show ?thesis
    unfolding tu tp using u(1,2,3) p(1,2,3) by blast
qed

text \<open>
  C8, as the code has it. Over the records that pass the date filter, \<open>topUsers\<close>
  lists the user names, ten at most and each once, with the name's job count and summed
  page count, in descending order of the sum, and no name left out has a larger sum than
  a name listed; \<open>topPrinters\<close> does the same for printer names in descending order
  of the job count. The order among equal sums or equal counts is not fixed.
\<close>

theorem top_lists:
  assumes M: "M = filter (in_window q) (print_jobs st)"
  shows "(\<exists>r. get_stats st q r)
   \<and> (\<forall>r. get_stats st q r \<longrightarrow>
         length (topUsers r) = min 10 (card (user_name ` set M))
       \<and> distinct (map group_name (topUsers r))
       \<and> list_all (entry_for user_name M) (topUsers r)
       \<and> sorted_wrt by_pages (topUsers r)
       \<and> (\<forall>h. entry_for user_name M h \<longrightarrow> group_name h \<notin> set (map group_name (topUsers r))
             \<longrightarrow> list_all (\<lambda>g. by_pages g h) (topUsers r))
       \<and> length (topPrinters r) = min 10 (card (printer_name ` set M))
       \<and> distinct (map group_name (topPrinters r))
       \<and> list_all (entry_for printer_name M) (topPrinters r)
       \<and> sorted_wrt by_jobs (topPrinters r)
       \<and> (\<forall>h. entry_for printer_name M h \<longrightarrow> group_name h \<notin> set (map group_name (topPrinters r))
             \<longrightarrow> list_all (\<lambda>g. by_jobs g h) (topPrinters r)))"
  using get_stats_total [of st q] top_lists_answer [OF _ M] by blast

theorem top_lists_witness:
  "get_stats two_jobs no_params
     \<lparr>totalJobs = 2, totalPages = 8,
      topUsers = [\<lparr>group_name = ''alice'', job_count = 1, page_count_sum = Some 5\<rparr>,
                  \<lparr>group_name = ''bob'', job_count = 1, page_count_sum = Some 3\<rparr>],
      topPrinters = [\<lparr>group_name = ''P1'', job_count = 2, page_count_sum = Some 8\<rparr>]\<rparr>
   \<and> list_all (entry_for user_name (filter (in_window no_params) (print_jobs two_jobs)))
        [\<lparr>group_name = ''alice'', job_count = 1, page_count_sum = Some 5\<rparr>,
         \<lparr>group_name = ''bob'', job_count = 1, page_count_sum = Some 3\<rparr>]
   \<and> list_all (entry_for printer_name (filter (in_window no_params) (print_jobs two_jobs)))
        [\<lparr>group_name = ''P1'', job_count = 2, page_count_sum = Some 8\<rparr>]"
proof -
  let ?M = "filter (in_window no_params) (print_jobs two_jobs)"
  let ?r = "\<lparr>totalJobs = 2, totalPages = 8,
      topUsers = [\<lparr>group_name = ''alice'', job_count = 1, page_count_sum = Some 5\<rparr>,
                  \<lparr>group_name = ''bob'', job_count = 1, page_count_sum = Some 3\<rparr>],
      topPrinters = [\<lparr>group_name = ''P1'', job_count = 2, page_count_sum = Some 8\<rparr>]\<rparr>"
  from top_lists [OF refl, of two_jobs no_params] two_jobs_stats
  have "list_all (entry_for user_name ?M) (topUsers ?r)
      \<and> list_all (entry_for printer_name ?M) (topPrinters ?r)"
    by blast
  with two_jobs_stats show ?thesis by simp
qed

text \<open>
  C8 as stated fails: nothing breaks ties by name. With alice and bob at 5 pages each,
  the database may return bob before alice.
\<close>

theorem equal_sums_counterexample:
  "get_stats tied_jobs no_params
     \<lparr>totalJobs = 2, totalPages = 10,
      topUsers = [\<lparr>group_name = ''bob'', job_count = 1, page_count_sum = Some 5\<rparr>,
                  \<lparr>group_name = ''alice'', job_count = 1, page_count_sum = Some 5\<rparr>],
      topPrinters = [\<lparr>group_name = ''P1'', job_count = 2, page_count_sum = Some 10\<rparr>]\<rparr>"
proof -
  have u: "order_by page_count_desc (group_by user_name (stats_rows tied_jobs no_params))
      [\<lparr>group_name = ''bob'', job_count = 1, page_count_sum = Some 5\<rparr>,
       \<lparr>group_name = ''alice'', job_count = 1, page_count_sum = Some 5\<rparr>]"
    by (simp add: stats_defs)
  have p: "order_by job_count_desc (group_by printer_name (stats_rows tied_jobs no_params))
      [\<lparr>group_name = ''P1'', job_count = 2, page_count_sum = Some 10\<rparr>]"
    by (simp add: stats_defs)
  from get_stats.intros [OF u p] show ?thesis
    by (simp add: stats_defs)
qed

end
